theory Spec2Isabelle
  imports Complex_Main "HOL-Library.Multiset" "HOL-Library.Log_Nat"
begin

section \<open>The observability platform: data model\<close>

text \<open>
  The platform of \<^verbatim>\<open>src/observability.py\<close> keeps three SQLite tables (metrics, spans,
  logs). A table is modelled as the list of its rows in storage order: an INSERT appends,
  an UPDATE rewrites the matching rows in place, and a SELECT without ORDER BY scans the
  list from the front (the rowid scan of the engine).

  Conventions of the embedding:
  \<^item> an instant (\<^verbatim>\<open>datetime\<close>) is an \<open>int\<close>, the number of microseconds on the wall clock
    since \<^verbatim>\<open>datetime.min\<close>; the upper end of the range of \<^verbatim>\<open>datetime\<close> is not modelled.
    The source stores instants as ISO-8601 text and lets SQLite compare the texts; on
    the output of \<^verbatim>\<open>isoformat()\<close> that comparison agrees with the comparison of the
    instants, which is what the model compares;
  \<^item> the two things an operation reads from its environment are parameters: \<open>now\<close> is the
    value of \<^verbatim>\<open>datetime.now()\<close> at the call and \<open>uid\<close> the string \<^verbatim>\<open>uuid.uuid4()\<close> returns;
    \<open>get_trace\<close> reads the clock once for every span in flight, so its parameter is the
    sequence \<open>clock\<close> of these readings;
  \<^item> a Python \<^verbatim>\<open>float\<close> is a real number, one of the two infinities, or NaN. A metric
    value is stored, read and compared, never computed with; the durations of
    \<open>get_trace\<close> are computed, and their arithmetic is rounded to double precision;
  \<^item> a JSON object text (labels, tags, fields) is the association list it denotes;
  \<^item> an operation that writes returns \<open>error + (result \<times> store)\<close>, \<open>Inl\<close> being the
    exception that leaves the call. Failure to open the database file is not modelled.
\<close>

datatype pyfloat = Finite real | PosInf | NegInf | NaN

text \<open>
  \<open>IntegrityError\<close> (a PRIMARY KEY violation, from sqlite3) and \<open>TypeError\<close> (ordering
  \<^verbatim>\<open>None\<close> against a number) are the exceptions the modelled code can raise.
  \<open>NotFound\<close> and \<open>InvalidValue\<close> are named by the error taxonomy of the specification;
  no operation of the source raises them.
\<close>

datatype error = IntegrityError | TypeError | NotFound | InvalidValue

record metric_row =
  m_id :: string
  m_name :: string
  m_value :: "pyfloat option"
  m_labels :: "(string \<times> string) list"
  m_timestamp :: int
  m_type :: string

record span_row =
  trace_id :: string
  span_id :: string
  parent_span_id :: "string option"
  service :: string
  operation :: string
  start_ts :: int
  end_ts :: "int option"
  status :: string
  tags :: "(string \<times> string) list"

record log_row =
  log_id :: string
  log_service :: string
  log_level :: string
  log_message :: string
  log_timestamp :: int
  log_trace_id :: "string option"
  log_fields :: "(string \<times> string) list"

record store =
  metrics :: "metric_row list"
  spans :: "span_row list"
  logs :: "log_row list"

definition empty_store :: store where
  "empty_store = \<lparr>metrics = [], spans = [], logs = []\<rparr>"

section \<open>What SQLite and Python do with the values\<close>

text \<open>
  The column \<^verbatim>\<open>value REAL\<close> admits NULL, and SQLite binds a NaN double as NULL; every
  other float is stored as it is. A row read back has \<^verbatim>\<open>None\<close> as its value in that case.
\<close>

fun sql_real :: "pyfloat \<Rightarrow> pyfloat option" where
  "sql_real NaN = None"
| "sql_real v = Some v"

text \<open>Python's \<^verbatim>\<open>a > b\<close> on floats.\<close>

fun float_gt :: "pyfloat \<Rightarrow> pyfloat \<Rightarrow> bool" where
  "float_gt NaN b = False"
| "float_gt a NaN = False"
| "float_gt (Finite a) (Finite b) = (b < a)"
| "float_gt (Finite a) PosInf = False"
| "float_gt (Finite a) NegInf = True"
| "float_gt PosInf PosInf = False"
| "float_gt PosInf b = True"
| "float_gt NegInf b = False"

text \<open>
  \<^verbatim>\<open>c and row['value'] > t\<close>: the comparison is evaluated only when \<open>c\<close> holds, and
  raises TypeError when the value read from the row is \<^verbatim>\<open>None\<close>.
\<close>

fun and_value_gt :: "bool \<Rightarrow> pyfloat option \<Rightarrow> pyfloat \<Rightarrow> error + bool" where
  "and_value_gt False v t = Inr False"
| "and_value_gt True None t = Inl TypeError"
| "and_value_gt True (Some x) t = Inr (float_gt x t)"

text \<open>Python's \<^verbatim>\<open>sub in text\<close> on strings.\<close>

fun starts_with :: "string \<Rightarrow> string \<Rightarrow> bool" where
  "starts_with text [] = True"
| "starts_with [] (p # ps) = False"
| "starts_with (c # cs) (p # ps) = (c = p \<and> starts_with cs ps)"

fun str_contains :: "string \<Rightarrow> string \<Rightarrow> bool" where
  "str_contains [] sub = (sub = [])"
| "str_contains (c # cs) sub = (starts_with (c # cs) sub \<or> str_contains cs sub)"

text \<open>
  SQLite's \<^verbatim>\<open>LIKE\<close> with its defaults (no ESCAPE clause, case_sensitive_like off):
  \<^verbatim>\<open>%\<close> in the pattern matches any run of characters, \<^verbatim>\<open>_\<close> any one character, and every
  other character matches itself up to the case of the ASCII letters.
\<close>

definition ascii_lower :: "char \<Rightarrow> char" where
  "ascii_lower c =
     (case map_of (zip ''ABCDEFGHIJKLMNOPQRSTUVWXYZ'' ''abcdefghijklmnopqrstuvwxyz'') c of
        Some l \<Rightarrow> l
      | None \<Rightarrow> c)"

fun like :: "string \<Rightarrow> string \<Rightarrow> bool" where
  "like [] [] = True"
| "like [] (c # cs) = False"
| "like (p # ps) [] = (p = CHR ''%'' \<and> like ps [])"
| "like (p # ps) (c # cs) =
     (if p = CHR ''%'' then like ps (c # cs) \<or> like (p # ps) cs
      else (p = CHR ''_'' \<or> ascii_lower p = ascii_lower c) \<and> like ps cs)"

text \<open>The truth value of an optional string argument (\<^verbatim>\<open>if name:\<close>).\<close>

fun truthy :: "string option \<Rightarrow> bool" where
  "truthy None = False"
| "truthy (Some s) = (s \<noteq> [])"

definition minutes :: "int \<Rightarrow> int" where
  "minutes w = w * 60000000"

section \<open>Ingestion\<close>

text \<open>\<^verbatim>\<open>if labels is None: labels = {}\<close>\<close>

fun or_empty :: "(string \<times> string) list option \<Rightarrow> (string \<times> string) list" where
  "or_empty None = []"
| "or_empty (Some kvs) = kvs"

definition record_metric ::
  "store \<Rightarrow> int \<Rightarrow> string \<Rightarrow> string \<Rightarrow> pyfloat \<Rightarrow> (string \<times> string) list option \<Rightarrow> string
     \<Rightarrow> error + (string \<times> store)" where
  "record_metric s now uid name val labels type =
     (let labels' = or_empty labels;
          metric_id = uid;
          row = \<lparr>m_id = metric_id, m_name = name, m_value = sql_real val,
                 m_labels = labels', m_timestamp = now, m_type = type\<rparr>
      in if metric_id \<in> set (map m_id (metrics s)) then Inl IntegrityError
         else Inr (metric_id, s\<lparr>metrics := metrics s @ [row]\<rparr>))"

definition increment ::
  "store \<Rightarrow> int \<Rightarrow> string \<Rightarrow> string \<Rightarrow> (string \<times> string) list option
     \<Rightarrow> error + (string \<times> store)" where
  "increment s now uid name labels =
     (let labels' = or_empty labels
      in record_metric s now uid name (Finite 1) (Some labels') ''counter'')"

text \<open>
  \<open>start_span\<close> draws a trace id only when none is given, then a span id; \<open>uid_trace\<close> and
  \<open>uid_span\<close> are those two draws.
\<close>

definition start_span ::
  "store \<Rightarrow> int \<Rightarrow> string \<Rightarrow> string \<Rightarrow> string \<Rightarrow> string \<Rightarrow> string option \<Rightarrow> string option
     \<Rightarrow> error + (string \<times> store)" where
  "start_span s now uid_trace uid_span svc op tid parent =
     (let tid' = (case tid of None \<Rightarrow> uid_trace | Some t \<Rightarrow> t);
          row = \<lparr>trace_id = tid', span_id = uid_span, parent_span_id = parent,
                 service = svc, operation = op, start_ts = now, end_ts = None,
                 status = ''ok'', tags = []\<rparr>
      in if uid_span \<in> set (map span_id (spans s)) then Inl IntegrityError
         else Inr (uid_span, s\<lparr>spans := spans s @ [row]\<rparr>))"

text \<open>
  \<^verbatim>\<open>UPDATE spans SET end_ts = ?, status = ?, tags = ? WHERE span_id = ?\<close>: every row with
  that id is rewritten; a statement that matches no row is not an error.
\<close>

definition update_span ::
  "int \<Rightarrow> string \<Rightarrow> (string \<times> string) list \<Rightarrow> string \<Rightarrow> span_row \<Rightarrow> span_row" where
  "update_span now st tg sid r =
     (if span_id r = sid then r\<lparr>end_ts := Some now, status := st, tags := tg\<rparr> else r)"

definition end_span ::
  "store \<Rightarrow> int \<Rightarrow> string \<Rightarrow> string \<Rightarrow> (string \<times> string) list option
     \<Rightarrow> error + (unit \<times> store)" where
  "end_span s now sid st tg =
     (let tg' = or_empty tg
      in Inr ((), s\<lparr>spans := map (update_span now st tg' sid) (spans s)\<rparr>))"

text \<open>The method \<^verbatim>\<open>log\<close>; the name \<open>log\<close> is the logarithm in HOL.\<close>

definition log_entry ::
  "store \<Rightarrow> int \<Rightarrow> string \<Rightarrow> string \<Rightarrow> string \<Rightarrow> string \<Rightarrow> string option
     \<Rightarrow> (string \<times> string) list \<Rightarrow> error + (string \<times> store)" where
  "log_entry s now uid svc level message tid flds =
     (let row = \<lparr>log_id = uid, log_service = svc, log_level = level, log_message = message,
                 log_timestamp = now, log_trace_id = tid, log_fields = flds\<rparr>
      in if uid \<in> set (map log_id (logs s)) then Inl IntegrityError
         else Inr (uid, s\<lparr>logs := logs s @ [row]\<rparr>))"

section \<open>Queries\<close>

text \<open>
  \<open>get_metrics\<close> takes a \<open>labels\<close> argument and never uses it, as the source does. The
  name filter is added only for a non-empty name.
\<close>

fun name_filter :: "string option \<Rightarrow> string \<Rightarrow> bool" where
  "name_filter None n = True"
| "name_filter (Some p) n = (if truthy (Some p) then like (''%'' @ p @ ''%'') n else True)"

definition get_metrics ::
  "store \<Rightarrow> int \<Rightarrow> string option \<Rightarrow> (string \<times> string) list option \<Rightarrow> int \<Rightarrow> metric_row list" where
  "get_metrics s now name labels since_minutes =
     (let cutoff = now - minutes since_minutes
      in filter (\<lambda>m. cutoff < m_timestamp m \<and> name_filter name (m_name m)) (metrics s))"

subsection \<open>Trace reconstruction\<close>

record waterfall_entry =
  w_service :: string
  w_operation :: string
  w_duration_ms :: real
  w_status :: string

record trace_view =
  tv_trace_id :: string
  tv_spans :: "span_row list"
  tv_waterfall :: "waterfall_entry list"

text \<open>
  \<^verbatim>\<open>SELECT * FROM spans WHERE trace_id = ? ORDER BY start_ts ASC\<close>. SQL leaves the order
  of rows with equal keys open; the model keeps them in storage order.
\<close>

definition query_spans :: "store \<Rightarrow> string \<Rightarrow> span_row list" where
  "query_spans s tid = sort_key start_ts (filter (\<lambda>r. trace_id r = tid) (spans s))"

text \<open>
  The arithmetic of \<^verbatim>\<open>(end - start).total_seconds() * 1000\<close> is done in binary64.
  \<open>to_double x\<close> is the double nearest to the real \<open>x\<close>, ties going to the even
  significand: with \<open>2 ^ e \<le> \<bar>x\<bar> < 2 ^ (e + 1)\<close> it is \<open>x\<close> rounded to a multiple of
  \<open>2 ^ (e - 52)\<close>. The exponent range of the format is not modelled; the differences of
  two instants, in seconds and in milliseconds, are far inside it.
\<close>

definition pow2 :: "int \<Rightarrow> real" where
  "pow2 e = (if 0 \<le> e then 2 ^ nat e else 1 / 2 ^ nat (- e))"

text \<open>The exponent \<open>e\<close> with \<open>2 ^ e \<le> \<bar>x\<bar> < 2 ^ (e + 1)\<close>, for \<open>x \<noteq> 0\<close>.\<close>

definition binade :: "real \<Rightarrow> int" where
  "binade x =
     (if 1 \<le> \<bar>x\<bar> then bitlen \<lfloor>\<bar>x\<bar>\<rfloor> - 1 else - bitlen (\<lceil>1 / \<bar>x\<bar>\<rceil> - 1))"

text \<open>Rounding to the nearest integer, a tie to the even one.\<close>

definition rne :: "real \<Rightarrow> int" where
  "rne y =
     (let f = \<lfloor>y\<rfloor>; d = y - of_int f
      in if d < 1 / 2 then f else if 1 / 2 < d then f + 1 else if even f then f else f + 1)"

definition to_double :: "real \<Rightarrow> real" where
  "to_double x =
     (if x = 0 then 0
      else let e = binade x in of_int (rne (x * pow2 (52 - e))) * pow2 (e - 52))"

text \<open>
  \<^verbatim>\<open>(end - start).total_seconds() * 1000\<close> for two instants: \<^verbatim>\<open>total_seconds()\<close> is the
  correctly rounded quotient of the microseconds by \<open>10^6\<close>, and the product with 1000 is
  rounded again.
\<close>

definition duration_ms :: "int \<Rightarrow> int \<Rightarrow> real" where
  "duration_ms start end =
     (let total_seconds = to_double (real_of_int (end - start) / 1000000)
      in to_double (total_seconds * 1000))"

text \<open>
  The loop that builds the waterfall, with the list built so far as accumulator. For a
  span whose \<open>end_ts\<close> is set the end is that instant; for a span without one the loop
  calls \<^verbatim>\<open>datetime.now()\<close>. \<open>clock k\<close> is what the call number \<open>k\<close> (from 0) of
  \<^verbatim>\<open>datetime.now()\<close> within one call of \<open>get_trace\<close> returns, and \<open>k\<close> counts the calls
  made so far.
\<close>

fun waterfall_loop ::
  "(nat \<Rightarrow> int) \<Rightarrow> nat \<Rightarrow> span_row list \<Rightarrow> waterfall_entry list \<Rightarrow> waterfall_entry list" where
  "waterfall_loop clock k [] waterfall = waterfall"
| "waterfall_loop clock k (r # rs) waterfall =
     (case end_ts r of
        Some e \<Rightarrow>
          waterfall_loop clock k rs
            (waterfall @ [\<lparr>w_service = service r, w_operation = operation r,
                           w_duration_ms = duration_ms (start_ts r) e, w_status = status r\<rparr>])
      | None \<Rightarrow>
          waterfall_loop clock (Suc k) rs
            (waterfall @ [\<lparr>w_service = service r, w_operation = operation r,
                           w_duration_ms = duration_ms (start_ts r) (clock k),
                           w_status = status r\<rparr>]))"

definition get_trace :: "store \<Rightarrow> (nat \<Rightarrow> int) \<Rightarrow> string \<Rightarrow> trace_view" where
  "get_trace s clock tid =
     (let rows = query_spans s tid
      in \<lparr>tv_trace_id = tid, tv_spans = rows, tv_waterfall = waterfall_loop clock 0 rows []\<rparr>)"

subsection \<open>Logs and the service dashboard\<close>

text \<open>
  \<^verbatim>\<open>ORDER BY timestamp DESC LIMIT ?\<close>; a negative LIMIT means no limit in SQLite.
\<close>

definition sql_limit :: "int \<Rightarrow> 'a list \<Rightarrow> 'a list" where
  "sql_limit n xs = (if n < 0 then xs else take (nat n) xs)"

definition get_logs ::
  "store \<Rightarrow> int \<Rightarrow> string option \<Rightarrow> string option \<Rightarrow> int \<Rightarrow> int \<Rightarrow> log_row list" where
  "get_logs s now svc level since_minutes limit =
     (let cutoff = now - minutes since_minutes
      in sql_limit limit
           (sort_key (\<lambda>l. - log_timestamp l)
              (filter (\<lambda>l. cutoff < log_timestamp l \<and>
                            (truthy svc \<longrightarrow> Some (log_service l) = svc) \<and>
                            (truthy level \<longrightarrow> Some (log_level l) = level))
                 (logs s))))"

fun find_metric :: "metric_row list \<Rightarrow> string \<Rightarrow> pyfloat option" where
  "find_metric [] name = None"
| "find_metric (m # ms) name = (if m_name m = name then m_value m else find_metric ms name)"

record dashboard_metrics =
  requests_per_minute :: "pyfloat option"
  error_rate :: "pyfloat option"
  p50_latency :: "pyfloat option"
  p95_latency :: "pyfloat option"
  p99_latency :: "pyfloat option"

record dashboard =
  d_service :: string
  d_metrics :: dashboard_metrics
  recent_errors :: "log_row list"

definition service_dashboard :: "store \<Rightarrow> int \<Rightarrow> string \<Rightarrow> dashboard" where
  "service_dashboard s now svc =
     (let ms = get_metrics s now (Some svc) None 60;
          ls = get_logs s now (Some svc) (Some ''error'') 60 10
      in \<lparr>d_service = svc,
          d_metrics =
            \<lparr>requests_per_minute = find_metric ms (svc @ ''.requests_per_minute''),
             error_rate = find_metric ms (svc @ ''.error_rate''),
             p50_latency = find_metric ms (svc @ ''.p50_latency_ms''),
             p95_latency = find_metric ms (svc @ ''.p95_latency_ms''),
             p99_latency = find_metric ms (svc @ ''.p99_latency_ms'')\<rparr>,
          recent_errors = ls\<rparr>)"

subsection \<open>Alert rules\<close>

record violation =
  v_metric :: string
  v_value :: "pyfloat option"
  v_threshold :: real
  v_severity :: string

text \<open>
  One pass of the loop body for one row: the two \<^verbatim>\<open>if\<close> statements in the order of the
  source, each appending to the list built so far.
\<close>

fun alert_loop :: "metric_row list \<Rightarrow> violation list \<Rightarrow> error + violation list" where
  "alert_loop [] violations = Inr violations"
| "alert_loop (m # ms) violations =
     (case and_value_gt (str_contains (m_name m) ''error_rate'') (m_value m) (Finite 0.05) of
        Inl e \<Rightarrow> Inl e
      | Inr c1 \<Rightarrow>
          (let violations1 =
                 (if c1 then violations @
                    [\<lparr>v_metric = m_name m, v_value = m_value m,
                      v_threshold = 0.05, v_severity = ''high''\<rparr>]
                  else violations)
           in case and_value_gt (str_contains (m_name m) ''p99_latency'') (m_value m) (Finite 500) of
                Inl e \<Rightarrow> Inl e
              | Inr c2 \<Rightarrow>
                  (let violations2 =
                         (if c2 then violations1 @
                            [\<lparr>v_metric = m_name m, v_value = m_value m,
                              v_threshold = 500, v_severity = ''medium''\<rparr>]
                          else violations1)
                   in alert_loop ms violations2)))"

definition alert_rules :: "store \<Rightarrow> int \<Rightarrow> error + violation list" where
  "alert_rules s now = alert_loop (get_metrics s now None None 5) []"

section \<open>Definitions used to state the properties\<close>

text \<open>A name argument in which neither wildcard of \<^verbatim>\<open>LIKE\<close> occurs.\<close>

definition wildcard_free :: "string \<Rightarrow> bool" where
  "wildcard_free n = (CHR ''%'' \<notin> set n \<and> CHR ''_'' \<notin> set n)"

text \<open>Containment of \<open>sub\<close> in \<open>text\<close> up to the case of the ASCII letters.\<close>

definition ci_contains :: "string \<Rightarrow> string \<Rightarrow> bool" where
  "ci_contains text sub = str_contains (map ascii_lower text) (map ascii_lower sub)"

text \<open>
  What the rule table of the alert evaluator yields for one metric row: the
  \<^verbatim>\<open>error_rate\<close> rule (threshold 0.05, severity high) and the \<^verbatim>\<open>p99_latency\<close> rule
  (threshold 500, severity medium), each with a strict comparison, one after the other.
\<close>

definition value_gt :: "pyfloat option \<Rightarrow> real \<Rightarrow> bool" where
  "value_gt v t = (case v of None \<Rightarrow> False | Some x \<Rightarrow> float_gt x (Finite t))"

definition rule_violations :: "metric_row \<Rightarrow> violation list" where
  "rule_violations m =
     (if str_contains (m_name m) ''error_rate'' \<and> value_gt (m_value m) 0.05
      then [\<lparr>v_metric = m_name m, v_value = m_value m, v_threshold = 0.05,
             v_severity = ''high''\<rparr>]
      else []) @
     (if str_contains (m_name m) ''p99_latency'' \<and> value_gt (m_value m) 500
      then [\<lparr>v_metric = m_name m, v_value = m_value m, v_threshold = 500,
             v_severity = ''medium''\<rparr>]
      else [])"

text \<open>
  A row on which one of the two comparisons is evaluated although its value is NULL.
\<close>

definition unreadable :: "metric_row \<Rightarrow> bool" where
  "unreadable m =
     ((str_contains (m_name m) ''error_rate'' \<or> str_contains (m_name m) ''p99_latency'') \<and>
      m_value m = None)"

text \<open>
  The value of the first row, in storage order, among the metrics of the last 60
  minutes that are named \<open>n\<close>; \<open>None\<close> when there is no such row (or when that row's
  value is NULL).
\<close>

definition first_value :: "store \<Rightarrow> int \<Rightarrow> string \<Rightarrow> pyfloat option" where
  "first_value s now n =
     (case filter (\<lambda>m. now - m_timestamp m < minutes 60 \<and> m_name m = n) (metrics s) of
        [] \<Rightarrow> None
      | m # ms \<Rightarrow> m_value m)"

text \<open>The five metric names the dashboard of a service looks up.\<close>

definition dashboard_names :: "string \<Rightarrow> string set" where
  "dashboard_names svc =
     {svc @ ''.requests_per_minute'', svc @ ''.error_rate'', svc @ ''.p50_latency_ms'',
      svc @ ''.p95_latency_ms'', svc @ ''.p99_latency_ms''}"

text \<open>
  The number of spans without end among the first \<open>i\<close> of a list: the number of the
  clock reading that the loop of \<open>get_trace\<close> takes for the span at index \<open>i\<close>.
\<close>

definition reads_before :: "span_row list \<Rightarrow> nat \<Rightarrow> nat" where
  "reads_before rs i = length (filter (\<lambda>r. end_ts r = None) (take i rs))"

text \<open>The entries the loop of \<open>get_trace\<close> appends for a list of spans, from reading \<open>k\<close> on.\<close>

fun waterfall_from :: "(nat \<Rightarrow> int) \<Rightarrow> nat \<Rightarrow> span_row list \<Rightarrow> waterfall_entry list" where
  "waterfall_from clock k [] = []"
| "waterfall_from clock k (r # rs) =
     (case end_ts r of
        Some e \<Rightarrow>
          \<lparr>w_service = service r, w_operation = operation r,
           w_duration_ms = duration_ms (start_ts r) e, w_status = status r\<rparr> #
          waterfall_from clock k rs
      | None \<Rightarrow>
          \<lparr>w_service = service r, w_operation = operation r,
           w_duration_ms = duration_ms (start_ts r) (clock k), w_status = status r\<rparr> #
          waterfall_from clock (Suc k) rs)"

subsection \<open>Stores for the worked examples\<close>

definition c2_row :: metric_row where
  "c2_row = \<lparr>m_id = ''m1'', m_name = ''Gateway.CPU'', m_value = Some (Finite 1),
             m_labels = [], m_timestamp = 0, m_type = ''gauge''\<rparr>"

definition c2_store :: store where
  "c2_store = \<lparr>metrics = [c2_row], spans = [], logs = []\<rparr>"


definition c1_store1 :: store where
  "c1_store1 =
     \<lparr>metrics = [\<lparr>m_id = ''m1'', m_name = ''gateway.error_rate'',
                   m_value = Some (Finite 0.10), m_labels = [], m_timestamp = 0,
                   m_type = ''gauge''\<rparr>],
      spans = [], logs = []\<rparr>"

definition c1_store2 :: store where
  "c1_store2 =
     \<lparr>metrics = [\<lparr>m_id = ''m1'', m_name = ''gateway.error_rate'',
                   m_value = Some (Finite 0.10), m_labels = [], m_timestamp = 0,
                   m_type = ''gauge''\<rparr>,
                 \<lparr>m_id = ''m2'', m_name = ''api.error_rate'',
                   m_value = None, m_labels = [], m_timestamp = 1,
                   m_type = ''gauge''\<rparr>],
      spans = [], logs = []\<rparr>"

definition c3_store :: store where
  "c3_store =
     \<lparr>metrics =
        [\<lparr>m_id = ''a'', m_name = ''gateway.error_rate'', m_value = Some (Finite 0.01),
          m_labels = [], m_timestamp = 0, m_type = ''gauge''\<rparr>,
         \<lparr>m_id = ''b'', m_name = ''gateway.error_rate'', m_value = Some (Finite 0.02),
          m_labels = [], m_timestamp = 1, m_type = ''gauge''\<rparr>,
         \<lparr>m_id = ''c'', m_name = ''gateway.p99_latency'', m_value = Some (Finite 7),
          m_labels = [], m_timestamp = 1, m_type = ''gauge''\<rparr>],
      spans = [],
      logs =
        [\<lparr>log_id = ''l'', log_service = ''api'', log_level = ''error'',
          log_message = ''boom'', log_timestamp = 1, log_trace_id = None,
          log_fields = []\<rparr>]\<rparr>"

definition c4_early :: span_row where
  "c4_early = \<lparr>trace_id = ''t1'', span_id = ''s2'', parent_span_id = Some ''s1'',
               service = ''gateway'', operation = ''auth'', start_ts = 3000, end_ts = Some 4500,
               status = ''ok'', tags = []\<rparr>"

definition c4_late :: span_row where
  "c4_late = \<lparr>trace_id = ''t1'', span_id = ''s1'', parent_span_id = None,
              service = ''api'', operation = ''query'', start_ts = 5000, end_ts = None,
              status = ''ok'', tags = []\<rparr>"

definition c4_other :: span_row where
  "c4_other = \<lparr>trace_id = ''t2'', span_id = ''s3'', parent_span_id = None,
               service = ''api'', operation = ''ping'', start_ts = 1000, end_ts = None,
               status = ''ok'', tags = []\<rparr>"

definition c4_store :: store where
  "c4_store = \<lparr>metrics = [], spans = [c4_late, c4_other, c4_early], logs = []\<rparr>"

definition c5_started :: store where
  "c5_started =
     \<lparr>metrics = [],
      spans = [\<lparr>trace_id = ''tr'', span_id = ''sp'', parent_span_id = None,
                 service = ''gateway'', operation = ''login'', start_ts = 10, end_ts = None,
                 status = ''ok'', tags = []\<rparr>],
      logs = []\<rparr>"

definition c5_ended :: store where
  "c5_ended =
     \<lparr>metrics = [],
      spans = [\<lparr>trace_id = ''tr'', span_id = ''sp'', parent_span_id = None,
                 service = ''gateway'', operation = ''login'', start_ts = 10, end_ts = Some 25,
                 status = ''error'', tags = []\<rparr>],
      logs = []\<rparr>"

definition c5_set_back :: store where
  "c5_set_back =
     \<lparr>metrics = [],
      spans = [\<lparr>trace_id = ''tr'', span_id = ''sp'', parent_span_id = None,
                 service = ''gateway'', operation = ''login'', start_ts = 10, end_ts = Some 5,
                 status = ''ok'', tags = []\<rparr>],
      logs = []\<rparr>"

definition c5_two_in_flight :: store where
  "c5_two_in_flight =
     \<lparr>metrics = [],
      spans = [\<lparr>trace_id = ''tw'', span_id = ''a'', parent_span_id = None,
                 service = ''gateway'', operation = ''login'', start_ts = 100, end_ts = None,
                 status = ''ok'', tags = []\<rparr>,
               \<lparr>trace_id = ''tw'', span_id = ''b'', parent_span_id = Some ''a'',
                 service = ''api'', operation = ''query'', start_ts = 200, end_ts = None,
                 status = ''ok'', tags = []\<rparr>],
      logs = []\<rparr>"

definition c7_row :: "pyfloat option \<Rightarrow> metric_row" where
  "c7_row v = \<lparr>m_id = ''m1'', m_name = ''cpu'', m_value = v, m_labels = [],
               m_timestamp = 0, m_type = ''gauge''\<rparr>"

definition c8_row :: "string \<Rightarrow> int \<Rightarrow> metric_row" where
  "c8_row i t = \<lparr>m_id = i, m_name = ''x.hits'', m_value = Some (Finite 1), m_labels = [],
                 m_timestamp = t, m_type = ''counter''\<rparr>"

definition c9_row :: span_row where
  "c9_row = \<lparr>trace_id = ''tr'', span_id = ''sp'', parent_span_id = None,
             service = ''gateway'', operation = ''login'', start_ts = 10, end_ts = Some 40,
             status = ''ok'', tags = [(''retry'', ''1'')]\<rparr>"

definition c9_ended_twice :: store where
  "c9_ended_twice = \<lparr>metrics = [], spans = [c9_row], logs = []\<rparr>"

section \<open>Facts about the string operations\<close>

lemma like_pct_skip: "like ps t \<Longrightarrow> like (CHR ''%'' # ps) t"
  by (cases t) auto

lemma like_pct_cons: "like (CHR ''%'' # ps) t \<Longrightarrow> like (CHR ''%'' # ps) (c # t)"
  by simp

lemma like_pct_append: "like (CHR ''%'' # ps) t \<Longrightarrow> like (CHR ''%'' # ps) (u @ t)"
  by (induction u) auto

lemma like_same_cons: "like ps t \<Longrightarrow> like (c # ps) (c # t)"
  by (auto simp: like_pct_skip)

lemma like_pct_any: "like ''%'' t"
  by (induction t) auto

lemma like_self_prefix: "like (n @ ''%'') (n @ t)"
  by (induction n) (auto simp: like_pct_any like_pct_skip)

lemma like_self: "like (''%'' @ n @ ''%'') (u @ n @ t)"
proof -
  have "like (CHR ''%'' # n @ ''%'') (n @ t)"
    by (rule like_pct_skip) (rule like_self_prefix)
  then have "like (CHR ''%'' # n @ ''%'') (u @ n @ t)"
    by (rule like_pct_append)
  then show ?thesis by simp
qed

lemma like_pct_iff: "like (CHR ''%'' # ps) t \<longleftrightarrow> (\<exists>u v. t = u @ v \<and> like ps v)"
proof (induction t)
  case Nil
  then show ?case by simp
next
  case (Cons c t)
  show ?case
  proof
    assume "like (CHR ''%'' # ps) (c # t)"
    then consider "like ps (c # t)" | "like (CHR ''%'' # ps) t" by auto
    then show "\<exists>u v. c # t = u @ v \<and> like ps v"
    proof cases
      case 1
      then show ?thesis by (intro exI [of _ "[]"] exI [of _ "c # t"]) simp
    next
      case 2
      then obtain u v where "t = u @ v" "like ps v" using Cons.IH by blast
      then show ?thesis by (intro exI [of _ "c # u"] exI [of _ v]) simp
    qed
  next
    assume "\<exists>u v. c # t = u @ v \<and> like ps v"
    then obtain u v where uv: "c # t = u @ v" "like ps v" by blast
    show "like (CHR ''%'' # ps) (c # t)"
      using like_pct_append [OF like_pct_skip [OF uv(2)], of u] uv(1) by simp
  qed
qed

lemma like_literal_iff:
  "wildcard_free n \<Longrightarrow>
   like (n @ ''%'') t \<longleftrightarrow> (\<exists>v w. t = v @ w \<and> map ascii_lower v = map ascii_lower n)"
proof (induction n arbitrary: t)
  case Nil
  then show ?case by (simp add: like_pct_any)
next
  case (Cons p n)
  then have wf: "wildcard_free n" and p: "p \<noteq> CHR ''%''" "p \<noteq> CHR ''_''"
    by (auto simp: wildcard_free_def)
  show ?case
  proof (cases t)
    case Nil
    then show ?thesis using p by simp
  next
    case (Cons c cs)
    have "like ((p # n) @ ''%'') t \<longleftrightarrow> ascii_lower p = ascii_lower c \<and> like (n @ ''%'') cs"
      using p Cons by simp
    also have "\<dots> \<longleftrightarrow> ascii_lower p = ascii_lower c \<and>
        (\<exists>v w. cs = v @ w \<and> map ascii_lower v = map ascii_lower n)"
      using Cons.IH [OF wf] by simp
    also have "\<dots> \<longleftrightarrow> (\<exists>v w. t = v @ w \<and> map ascii_lower v = map ascii_lower (p # n))"
    proof
      assume "ascii_lower p = ascii_lower c \<and>
        (\<exists>v w. cs = v @ w \<and> map ascii_lower v = map ascii_lower n)"
      then obtain v w where "cs = v @ w" "map ascii_lower v = map ascii_lower n"
        "ascii_lower p = ascii_lower c" by blast
      then show "\<exists>v w. t = v @ w \<and> map ascii_lower v = map ascii_lower (p # n)"
        using Cons by (intro exI [of _ "c # v"] exI [of _ w]) simp
    next
      assume "\<exists>v w. t = v @ w \<and> map ascii_lower v = map ascii_lower (p # n)"
      then obtain v w where vw: "t = v @ w" "map ascii_lower v = map ascii_lower (p # n)"
        by blast
      then obtain c' v' where v: "v = c' # v'" by (cases v) auto
      with vw Cons show "ascii_lower p = ascii_lower c \<and>
        (\<exists>v w. cs = v @ w \<and> map ascii_lower v = map ascii_lower n)"
        by auto
    qed
    finally show ?thesis .
  qed
qed

lemma like_substring_iff:
  assumes "wildcard_free n"
  shows "like (''%'' @ n @ ''%'') t \<longleftrightarrow>
         (\<exists>u v w. t = u @ v @ w \<and> map ascii_lower v = map ascii_lower n)"
  using like_literal_iff [OF assms] by (simp add: like_pct_iff) blast

lemma starts_with_iff: "starts_with t p \<longleftrightarrow> (\<exists>w. t = p @ w)"
  by (induction t p rule: starts_with.induct) auto

lemma str_contains_iff: "str_contains t p \<longleftrightarrow> (\<exists>u w. t = u @ p @ w)"
proof (induction t)
  case Nil
  then show ?case by auto
next
  case (Cons c t)
  show ?case
  proof
    assume "str_contains (c # t) p"
    then consider "starts_with (c # t) p" | "str_contains t p" by auto
    then show "\<exists>u w. c # t = u @ p @ w"
    proof cases
      case 1
      then show ?thesis unfolding starts_with_iff by (metis append_Nil)
    next
      case 2
      then obtain u w where "t = u @ p @ w" using Cons.IH by blast
      then show ?thesis by (intro exI [of _ "c # u"] exI [of _ w]) simp
    qed
  next
    assume "\<exists>u w. c # t = u @ p @ w"
    then obtain u w where uw: "c # t = u @ p @ w" by blast
    show "str_contains (c # t) p"
    proof (cases u)
      case Nil
      then have "starts_with (c # t) p" using uw starts_with_iff [of "c # t" p] by auto
      then show ?thesis by simp
    next
      case (Cons a u')
      then have "t = u' @ p @ w" using uw by simp
      then show ?thesis using Cons.IH by auto
    qed
  qed
qed


lemma map_eq_appendE:
  assumes "map f xs = ys @ zs"
  obtains us vs where "xs = us @ vs" "map f us = ys" "map f vs = zs"
proof
  show "xs = take (length ys) xs @ drop (length ys) xs" by simp
  have "map f (take (length ys) xs) = take (length ys) (map f xs)" by (simp add: take_map)
  also have "\<dots> = ys" using assms by simp
  finally show "map f (take (length ys) xs) = ys" .
  have "map f (drop (length ys) xs) = drop (length ys) (map f xs)" by (simp add: drop_map)
  also have "\<dots> = zs" using assms by simp
  finally show "map f (drop (length ys) xs) = zs" .
qed

lemma ci_contains_iff:
  "ci_contains t n \<longleftrightarrow> (\<exists>u v w. t = u @ v @ w \<and> map ascii_lower v = map ascii_lower n)"
proof
  assume "ci_contains t n"
  then have "\<exists>u' w'. map ascii_lower t = u' @ map ascii_lower n @ w'"
    by (simp only: ci_contains_def str_contains_iff)
  then obtain u' w' where e: "map ascii_lower t = u' @ map ascii_lower n @ w'"
    by (elim exE)
  from e obtain u r where 1: "t = u @ r" and 2: "map ascii_lower r = map ascii_lower n @ w'"
    by (rule map_eq_appendE)
  from 2 obtain v w where 3: "r = v @ w" and 4: "map ascii_lower v = map ascii_lower n"
    by (rule map_eq_appendE)
  from 1 3 4 have "t = u @ v @ w \<and> map ascii_lower v = map ascii_lower n" by simp
  then show "\<exists>u v w. t = u @ v @ w \<and> map ascii_lower v = map ascii_lower n"
    by (intro exI)
next
  assume "\<exists>u v w. t = u @ v @ w \<and> map ascii_lower v = map ascii_lower n"
  then obtain u v w where "t = u @ v @ w" "map ascii_lower v = map ascii_lower n"
    by (elim exE conjE)
  then have "map ascii_lower t = map ascii_lower u @ map ascii_lower n @ map ascii_lower w"
    by simp
  then have "\<exists>u' w'. map ascii_lower t = u' @ map ascii_lower n @ w'"
    by (intro exI)
  then show "ci_contains t n"
    by (simp only: ci_contains_def str_contains_iff)
qed

lemma name_filter_literal:
  "wildcard_free n \<Longrightarrow> name_filter (Some n) t = ci_contains t n"
proof (cases "n = []")
  case True
  have "\<exists>u w. t = u @ w" by (rule exI [of _ "[]"]) simp
  then show ?thesis using True by (simp add: ci_contains_iff)
next
  case False
  assume "wildcard_free n"
  then show ?thesis
    using False like_substring_iff [of n t] by (simp add: ci_contains_iff)
qed

section \<open>Metric queries\<close>

text \<open>
  Claim C2, as the code has it. \<open>get_metrics\<close> returns, in storage order, exactly the
  stored metrics with \<open>now - timestamp < w\<close> minutes (a metric exactly at the cutoff is
  left out) that pass the name filter. Without a name, or with the empty name, there is
  no name filter. With a name \<open>n\<close> the filter is the SQL test \<^verbatim>\<open>name LIKE '%n%'\<close>; for a
  name without \<^verbatim>\<open>%\<close> and \<^verbatim>\<open>_\<close> that is containment of \<open>n\<close> in the metric's name up to
  the case of ASCII letters.
\<close>

theorem get_metrics_window_and_like:
  "get_metrics s now None labels w =
     filter (\<lambda>m. now - m_timestamp m < minutes w) (metrics s) \<and>
   get_metrics s now (Some n) labels w =
     filter (\<lambda>m. now - m_timestamp m < minutes w \<and>
                  (n = [] \<or> like (''%'' @ n @ ''%'') (m_name m))) (metrics s) \<and>
   (wildcard_free n \<longrightarrow>
      get_metrics s now (Some n) labels w =
        filter (\<lambda>m. now - m_timestamp m < minutes w \<and> ci_contains (m_name m) n) (metrics s))"
proof (intro conjI impI)
  show "get_metrics s now None labels w =
     filter (\<lambda>m. now - m_timestamp m < minutes w) (metrics s)"
    by (simp add: get_metrics_def) (rule filter_cong, auto)
  show "get_metrics s now (Some n) labels w =
     filter (\<lambda>m. now - m_timestamp m < minutes w \<and>
                  (n = [] \<or> like (''%'' @ n @ ''%'') (m_name m))) (metrics s)"
    by (simp add: get_metrics_def) (rule filter_cong, auto)
  assume "wildcard_free n"
  then show "get_metrics s now (Some n) labels w =
        filter (\<lambda>m. now - m_timestamp m < minutes w \<and> ci_contains (m_name m) n) (metrics s)"
    by (simp only: get_metrics_def Let_def name_filter_literal) (rule filter_cong, auto)
qed

text \<open>
  The same at a store with the one metric \<^verbatim>\<open>Gateway.CPU\<close> recorded at instant 0: the
  query for \<^verbatim>\<open>cpu\<close> finds it one microsecond later, does not find it once 60 minutes
  have passed, and the query for \<^verbatim>\<open>mem\<close> does not find it.
\<close>

theorem get_metrics_window_and_like_witness:
  "wildcard_free ''cpu'' \<and>
   get_metrics c2_store 1 (Some ''cpu'') None 60 = [c2_row] \<and>
   get_metrics c2_store 3600000000 (Some ''cpu'') None 60 = [] \<and>
   get_metrics c2_store 1 (Some ''mem'') None 60 = []"
proof -
  have wf: "wildcard_free ''cpu''" "wildcard_free ''mem''" by (simp_all add: wildcard_free_def)
  have a: "ci_contains (m_name c2_row) ''cpu''" "\<not> ci_contains (m_name c2_row) ''mem''"
    by (simp_all add: ci_contains_def c2_row_def ascii_lower_def)
  have t: "m_timestamp c2_row = 0" by (simp add: c2_row_def)
  have "get_metrics c2_store 1 (Some ''cpu'') None 60 =
        filter (\<lambda>m. 1 - m_timestamp m < minutes 60 \<and> ci_contains (m_name m) ''cpu'')
          (metrics c2_store)"
    using wf get_metrics_window_and_like [of c2_store 1 None 60 "''cpu''"] by blast
  then have 1: "get_metrics c2_store 1 (Some ''cpu'') None 60 = [c2_row]"
    using a t by (simp add: c2_store_def minutes_def)
  have "get_metrics c2_store 3600000000 (Some ''cpu'') None 60 =
        filter (\<lambda>m. 3600000000 - m_timestamp m < minutes 60 \<and> ci_contains (m_name m) ''cpu'')
          (metrics c2_store)"
    using wf get_metrics_window_and_like [of c2_store 3600000000 None 60 "''cpu''"] by blast
  then have 2: "get_metrics c2_store 3600000000 (Some ''cpu'') None 60 = []"
    using a t by (simp add: c2_store_def minutes_def)
  have "get_metrics c2_store 1 (Some ''mem'') None 60 =
        filter (\<lambda>m. 1 - m_timestamp m < minutes 60 \<and> ci_contains (m_name m) ''mem'')
          (metrics c2_store)"
    using wf get_metrics_window_and_like [of c2_store 1 None 60 "''mem''"] by blast
  then have 3: "get_metrics c2_store 1 (Some ''mem'') None 60 = []"
    using a t by (simp add: c2_store_def minutes_def)
  from wf(1) 1 2 3 show ?thesis by (intro conjI)
qed

text \<open>
  Claim C2 as stated (the name argument is a case-sensitive, literal substring of
  every returned metric's name) fails: the metric \<^verbatim>\<open>Gateway.CPU\<close> is returned for the
  argument \<^verbatim>\<open>gateway.cpu\<close>, and for the argument \<^verbatim>\<open>G_t%y\<close>, neither of which occurs in
  its name.
\<close>

theorem get_metrics_case_counterexample:
  "c2_row \<in> set (get_metrics c2_store 1 (Some ''gateway.cpu'') None 60) \<and>
   \<not> str_contains (m_name c2_row) ''gateway.cpu'' \<and>
   c2_row \<in> set (get_metrics c2_store 1 (Some ''G_t%y'') None 60) \<and>
   \<not> str_contains (m_name c2_row) ''G_t%y''"
  by (simp add: get_metrics_def c2_store_def c2_row_def minutes_def ascii_lower_def)

section \<open>Alert rules\<close>

lemma and_value_gt_Some: "and_value_gt c (Some x) t = Inr (c \<and> float_gt x t)"
  by (cases c) simp_all

lemma and_value_gt_None: "and_value_gt c None t = (if c then Inl TypeError else Inr False)"
  by (cases c) simp_all

lemma alert_loop_step_Some:
  "m_value m = Some x \<Longrightarrow>
   alert_loop (m # ms) vs = alert_loop ms (vs @ rule_violations m)"
  by (simp add: and_value_gt_Some rule_violations_def value_gt_def Let_def)

lemma alert_loop_step_None:
  "m_value m = None \<Longrightarrow>
   alert_loop (m # ms) vs = (if unreadable m then Inl TypeError else alert_loop ms vs)"
  by (auto simp add: and_value_gt_None unreadable_def Let_def)

lemma rule_violations_None: "m_value m = None \<Longrightarrow> rule_violations m = []"
  by (simp add: rule_violations_def value_gt_def)

lemma alert_loop_eq:
  "alert_loop ms vs =
     (if \<exists>m \<in> set ms. unreadable m then Inl TypeError
      else Inr (vs @ concat (map rule_violations ms)))"
proof (induction ms arbitrary: vs)
  case Nil
  show ?case by simp
next
  case (Cons m ms)
  show ?case
  proof (cases "m_value m")
    case None
    then show ?thesis
      by (simp add: alert_loop_step_None Cons.IH rule_violations_None del: alert_loop.simps)
  next
    case (Some x)
    then have "\<not> unreadable m" by (simp add: unreadable_def)
    then show ?thesis using Some
      by (simp add: alert_loop_step_Some Cons.IH del: alert_loop.simps)
  qed
qed

lemma get_metrics_no_name:
  "get_metrics s now None labels w = filter (\<lambda>m. now - m_timestamp m < minutes w) (metrics s)"
  by (simp add: get_metrics_def) (rule filter_cong, auto)

text \<open>
  \<open>alert_rules\<close> on any store: it raises TypeError exactly when a row of the last five
  minutes whose name contains \<^verbatim>\<open>error_rate\<close> or \<^verbatim>\<open>p99_latency\<close> has a NULL value, and
  otherwise returns, row by row in storage order, what the two rules yield.
\<close>

lemma alert_rules_eq:
  "alert_rules s now =
     (if \<exists>m \<in> set (metrics s). now - m_timestamp m < minutes 5 \<and> unreadable m
      then Inl TypeError
      else Inr (concat (map rule_violations
                  (filter (\<lambda>m. now - m_timestamp m < minutes 5) (metrics s)))))"
  unfolding alert_rules_def alert_loop_eq get_metrics_no_name by auto


text \<open>
  Claim C1 at a failing input. After \<^verbatim>\<open>record_metric("gateway.error_rate", 0.10)\<close> the
  evaluator reports the one violation the claim asks for. A further
  \<^verbatim>\<open>record_metric("api.error_rate", float("nan"))\<close> succeeds and stores NULL as the
  value; from then on, while that row is in the five-minute window, \<open>alert_rules\<close>
  raises TypeError and reports no violation at all, also not the one of
  \<^verbatim>\<open>gateway.error_rate\<close>.
\<close>

theorem alert_rules_null_value_raises:
  "record_metric empty_store 0 ''m1'' ''gateway.error_rate'' (Finite 0.10) None ''gauge''
     = Inr (''m1'', c1_store1) \<and>
   alert_rules c1_store1 2 =
     Inr [\<lparr>v_metric = ''gateway.error_rate'', v_value = Some (Finite 0.10),
           v_threshold = 0.05, v_severity = ''high''\<rparr>] \<and>
   record_metric c1_store1 1 ''m2'' ''api.error_rate'' NaN None ''gauge''
     = Inr (''m2'', c1_store2) \<and>
   alert_rules c1_store2 2 = Inl TypeError"
  by (simp add: record_metric_def empty_store_def c1_store1_def c1_store2_def
      alert_rules_def get_metrics_def minutes_def Let_def)

section \<open>The service dashboard\<close>

lemma find_metric_filter:
  "find_metric (filter P ms) n =
     (case filter (\<lambda>m. P m \<and> m_name m = n) ms of [] \<Rightarrow> None | m # r \<Rightarrow> m_value m)"
  by (induction ms) simp_all

lemma name_filter_own_name: "name_filter (Some svc) (svc @ suffix)"
  using like_self [of svc "[]" suffix] by simp

lemma find_metric_get_metrics:
  "find_metric (get_metrics s now (Some svc) labels 60) (svc @ suffix) =
     first_value s now (svc @ suffix)"
proof -
  have "filter (\<lambda>m. (now - minutes 60 < m_timestamp m \<and> name_filter (Some svc) (m_name m)) \<and>
                     m_name m = svc @ suffix) (metrics s) =
        filter (\<lambda>m. now - m_timestamp m < minutes 60 \<and> m_name m = svc @ suffix) (metrics s)"
    by (rule filter_cong) (auto simp: name_filter_own_name simp del: name_filter.simps)
  then show ?thesis
    by (simp only: get_metrics_def Let_def find_metric_filter first_value_def)
qed

lemma first_value_None:
  "(\<forall>m \<in> set (metrics s). now - m_timestamp m < minutes 60 \<longrightarrow> m_name m \<noteq> n) \<Longrightarrow>
   first_value s now n = None"
proof -
  assume "\<forall>m \<in> set (metrics s). now - m_timestamp m < minutes 60 \<longrightarrow> m_name m \<noteq> n"
  then have "filter (\<lambda>m. now - m_timestamp m < minutes 60 \<and> m_name m = n) (metrics s) = []"
    by (simp add: filter_empty_conv)
  then show ?thesis by (simp add: first_value_def)
qed

lemma get_logs_no_rows:
  assumes "svc \<noteq> []" "\<forall>l \<in> set (logs s). log_service l \<noteq> svc"
  shows "get_logs s now (Some svc) level w limit = []"
proof -
  have "filter (\<lambda>l. now - minutes w < log_timestamp l \<and>
                     (truthy (Some svc) \<longrightarrow> Some (log_service l) = Some svc) \<and>
                     (truthy level \<longrightarrow> Some (log_level l) = level)) (logs s) = []"
    using assms by (simp add: filter_empty_conv)
  then show ?thesis by (simp add: get_logs_def sql_limit_def Let_def)
qed


text \<open>
  Claim C3, as the code has it. Each of the five fields is the value of the first row,
  in storage order, among the metrics of the last 60 minutes whose name is the service
  name followed by \<^verbatim>\<open>.requests_per_minute\<close>, \<^verbatim>\<open>.error_rate\<close>, \<^verbatim>\<open>.p50_latency_ms\<close>,
  \<^verbatim>\<open>.p95_latency_ms\<close> and \<^verbatim>\<open>.p99_latency_ms\<close> respectively; a field with no such row
  is null; and for a non-empty service name, on a store with no metric of these five
  names and no log of that service, all five fields are null and \<open>recent_errors\<close> is
  empty.
\<close>

theorem service_dashboard_first_match:
  "d_metrics (service_dashboard s now svc) =
     \<lparr>requests_per_minute = first_value s now (svc @ ''.requests_per_minute''),
      error_rate = first_value s now (svc @ ''.error_rate''),
      p50_latency = first_value s now (svc @ ''.p50_latency_ms''),
      p95_latency = first_value s now (svc @ ''.p95_latency_ms''),
      p99_latency = first_value s now (svc @ ''.p99_latency_ms'')\<rparr> \<and>
   ((\<forall>m \<in> set (metrics s). now - m_timestamp m < minutes 60 \<longrightarrow> m_name m \<noteq> n) \<longrightarrow>
      first_value s now n = None) \<and>
   (svc \<noteq> [] \<and> (\<forall>m \<in> set (metrics s). m_name m \<notin> dashboard_names svc) \<and>
    (\<forall>l \<in> set (logs s). log_service l \<noteq> svc) \<longrightarrow>
      service_dashboard s now svc =
        \<lparr>d_service = svc,
         d_metrics = \<lparr>requests_per_minute = None, error_rate = None, p50_latency = None,
                      p95_latency = None, p99_latency = None\<rparr>,
         recent_errors = []\<rparr>)"
proof (intro conjI impI)
  show fields: "d_metrics (service_dashboard s now svc) =
     \<lparr>requests_per_minute = first_value s now (svc @ ''.requests_per_minute''),
      error_rate = first_value s now (svc @ ''.error_rate''),
      p50_latency = first_value s now (svc @ ''.p50_latency_ms''),
      p95_latency = first_value s now (svc @ ''.p95_latency_ms''),
      p99_latency = first_value s now (svc @ ''.p99_latency_ms'')\<rparr>"
    by (simp add: service_dashboard_def Let_def find_metric_get_metrics)
  show "first_value s now n = None"
    if "\<forall>m \<in> set (metrics s). now - m_timestamp m < minutes 60 \<longrightarrow> m_name m \<noteq> n"
    using that by (rule first_value_None)
  show "service_dashboard s now svc =
        \<lparr>d_service = svc,
         d_metrics = \<lparr>requests_per_minute = None, error_rate = None, p50_latency = None,
                      p95_latency = None, p99_latency = None\<rparr>,
         recent_errors = []\<rparr>"
    if h: "svc \<noteq> [] \<and> (\<forall>m \<in> set (metrics s). m_name m \<notin> dashboard_names svc) \<and>
           (\<forall>l \<in> set (logs s). log_service l \<noteq> svc)"
  proof -
    have none: "first_value s now n = None" if "n \<in> dashboard_names svc" for n
      using h that by (intro first_value_None) auto
    have logs: "get_logs s now (Some svc) (Some ''error'') 60 10 = []"
      using h by (intro get_logs_no_rows) auto
    have "d_metrics (service_dashboard s now svc) =
          \<lparr>requests_per_minute = None, error_rate = None, p50_latency = None,
           p95_latency = None, p99_latency = None\<rparr>"
      unfolding fields by (simp add: none dashboard_names_def)
    moreover have "d_service (service_dashboard s now svc) = svc"
      by (simp add: service_dashboard_def Let_def)
    moreover have "recent_errors (service_dashboard s now svc) = []"
      using logs by (simp add: service_dashboard_def Let_def)
    ultimately show ?thesis by (cases "service_dashboard s now svc") simp
  qed
qed

text \<open>
  The same at a store with two \<^verbatim>\<open>gateway.error_rate\<close> rows (0.01 stored first, then
  0.02), one \<^verbatim>\<open>gateway.p99_latency\<close> row and one error log of the service \<^verbatim>\<open>api\<close>.
\<close>

theorem service_dashboard_first_match_witness:
  "error_rate (d_metrics (service_dashboard c3_store 2 ''gateway'')) = Some (Finite 0.01) \<and>
   first_value c3_store 2 ''gateway.p99_latency_ms'' = None \<and>
   service_dashboard c3_store 2 ''worker'' =
     \<lparr>d_service = ''worker'',
      d_metrics = \<lparr>requests_per_minute = None, error_rate = None, p50_latency = None,
                   p95_latency = None, p99_latency = None\<rparr>,
      recent_errors = []\<rparr>"
proof -
  have 1: "first_value c3_store 2 ''gateway.error_rate'' = Some (Finite 0.01)"
    by (simp add: first_value_def c3_store_def minutes_def)
  have 2: "\<forall>m \<in> set (metrics c3_store).
             2 - m_timestamp m < minutes 60 \<longrightarrow> m_name m \<noteq> ''gateway.p99_latency_ms''"
    by (simp add: c3_store_def)
  have 3: "''worker'' \<noteq> [] \<and>
           (\<forall>m \<in> set (metrics c3_store). m_name m \<notin> dashboard_names ''worker'') \<and>
           (\<forall>l \<in> set (logs c3_store). log_service l \<noteq> ''worker'')"
    by (simp add: c3_store_def dashboard_names_def)
  note t = service_dashboard_first_match [of c3_store 2 "''gateway''" "''gateway.p99_latency_ms''"]
  note u = service_dashboard_first_match [of c3_store 2 "''worker''" "[]"]
  have a: "error_rate (d_metrics (service_dashboard c3_store 2 ''gateway'')) = Some (Finite 0.01)"
    using t 1 by simp
  have b: "first_value c3_store 2 ''gateway.p99_latency_ms'' = None"
    using t 2 by (elim conjE) (erule mp)
  have c: "service_dashboard c3_store 2 ''worker'' =
     \<lparr>d_service = ''worker'',
      d_metrics = \<lparr>requests_per_minute = None, error_rate = None, p50_latency = None,
                   p95_latency = None, p99_latency = None\<rparr>,
      recent_errors = []\<rparr>"
    using u 3 by (elim conjE) (erule mp, intro conjI)
  from a b c show ?thesis by (intro conjI)
qed

text \<open>
  Claim C3 as stated fails on that store: the \<^verbatim>\<open>error_rate\<close> field is 0.01, the value
  stored first, not 0.02, the value stored most recently; the stored metric
  \<^verbatim>\<open>gateway.p99_latency\<close> does not fill the \<^verbatim>\<open>p99_latency\<close> field, which looks up
  \<^verbatim>\<open>gateway.p99_latency_ms\<close>; and for the empty service name, for which the store has
  no log, \<open>recent_errors\<close> holds the error log of \<^verbatim>\<open>api\<close>.
\<close>

theorem service_dashboard_latest_counterexample:
  "map m_value (filter (\<lambda>m. m_name m = ''gateway.error_rate'') (metrics c3_store)) =
     [Some (Finite 0.01), Some (Finite 0.02)] \<and>
   error_rate (d_metrics (service_dashboard c3_store 2 ''gateway'')) = Some (Finite 0.01) \<and>
   ''gateway.p99_latency'' \<in> set (map m_name (metrics c3_store)) \<and>
   p99_latency (d_metrics (service_dashboard c3_store 2 ''gateway'')) = None \<and>
   '''' \<notin> set (map log_service (logs c3_store)) \<and>
   recent_errors (service_dashboard c3_store 2 '''') = logs c3_store"
proof -
  have 1: "map m_value (filter (\<lambda>m. m_name m = ''gateway.error_rate'') (metrics c3_store)) =
     [Some (Finite 0.01), Some (Finite 0.02)]"
    by (simp add: c3_store_def)
  have "error_rate (d_metrics (service_dashboard c3_store 2 ''gateway'')) =
        first_value c3_store 2 (''gateway'' @ ''.error_rate'')"
    by (simp only: service_dashboard_def Let_def find_metric_get_metrics
        dashboard.simps dashboard_metrics.simps)
  then have 2: "error_rate (d_metrics (service_dashboard c3_store 2 ''gateway'')) =
        Some (Finite 0.01)"
    by (simp add: first_value_def c3_store_def minutes_def)
  have 3: "''gateway.p99_latency'' \<in> set (map m_name (metrics c3_store))"
    by (simp add: c3_store_def)
  have "p99_latency (d_metrics (service_dashboard c3_store 2 ''gateway'')) =
        first_value c3_store 2 (''gateway'' @ ''.p99_latency_ms'')"
    by (simp only: service_dashboard_def Let_def find_metric_get_metrics
        dashboard.simps dashboard_metrics.simps)
  then have 4: "p99_latency (d_metrics (service_dashboard c3_store 2 ''gateway'')) = None"
    by (simp add: first_value_def c3_store_def minutes_def)
  have 5: "'''' \<notin> set (map log_service (logs c3_store))"
    by (simp add: c3_store_def)
  have "recent_errors (service_dashboard c3_store 2 '''') =
        get_logs c3_store 2 (Some '''') (Some ''error'') 60 10"
    by (simp only: service_dashboard_def Let_def dashboard.simps)
  then have 6: "recent_errors (service_dashboard c3_store 2 '''') = logs c3_store"
    by (simp add: get_logs_def sql_limit_def c3_store_def minutes_def)
  from 1 2 3 4 5 6 show ?thesis by (intro conjI)
qed

section \<open>Rounding to double precision\<close>

lemma pow2_powr: "pow2 e = 2 powr real_of_int e"
proof (cases "0 \<le> e")
  case True
  have "(2::real) powr real (nat e) = 2 ^ nat e" by (rule powr_realpow) simp
  moreover have "real (nat e) = real_of_int e" using True by simp
  ultimately show ?thesis using True by (simp add: pow2_def)
next
  case False
  have "(2::real) powr real (nat (- e)) = 2 ^ nat (- e)" by (rule powr_realpow) simp
  moreover have "real (nat (- e)) = - real_of_int e" using False by simp
  ultimately have "2 ^ nat (- e) = (2::real) powr (- real_of_int e)" by simp
  then show ?thesis using False by (simp add: pow2_def powr_minus divide_inverse)
qed

lemma pow2_pos: "0 < pow2 e"
  by (simp add: pow2_powr)

lemma pow2_add: "pow2 (a + b) = pow2 a * pow2 b"
  by (simp add: pow2_powr powr_add)

lemma pow2_mono: "a \<le> b \<Longrightarrow> pow2 a \<le> pow2 b"
  by (simp add: pow2_powr)

lemma pow2_nat: "pow2 (int n) = 2 ^ n"
  by (simp add: pow2_def)

lemma pow2_nonneg_exp: "0 \<le> e \<Longrightarrow> pow2 e = 2 ^ nat e"
  by (simp add: pow2_def)

lemma pow2_shift: "pow2 a * pow2 (b - a) = pow2 b"
  using pow2_add [of a "b - a"] by simp

lemma binade_bounds:
  assumes "x \<noteq> 0"
  shows "pow2 (binade x) \<le> \<bar>x\<bar> \<and> \<bar>x\<bar> < pow2 (binade x + 1)"
proof (cases "1 \<le> \<bar>x\<bar>")
  case True
  define m where "m = \<lfloor>\<bar>x\<bar>\<rfloor>"
  have m: "0 < m" using True by (simp add: m_def)
  have b: "binade x = bitlen m - 1" using True by (simp add: binade_def m_def)
  from bitlen_bounds [OF m] have lo: "2 ^ nat (bitlen m - 1) \<le> m" and hi: "m < 2 ^ nat (bitlen m)"
    by simp_all
  have bl: "1 \<le> bitlen m" using m by (simp add: bitlen_alt_def)
  have "pow2 (bitlen m - 1) = 2 ^ nat (bitlen m - 1)" using bl by (simp add: pow2_nonneg_exp)
  also have "\<dots> = real_of_int (2 ^ nat (bitlen m - 1))" by simp
  also have "\<dots> \<le> real_of_int m" using lo by (simp only: of_int_le_iff)
  also have "\<dots> \<le> \<bar>x\<bar>" by (simp add: m_def)
  finally have 1: "pow2 (binade x) \<le> \<bar>x\<bar>" by (simp only: b)
  have "m + 1 \<le> 2 ^ nat (bitlen m)" using hi by simp
  then have "real_of_int (m + 1) \<le> real_of_int (2 ^ nat (bitlen m))" by (simp only: of_int_le_iff)
  moreover have "\<bar>x\<bar> < real_of_int (m + 1)" by (simp add: m_def)
  ultimately have "\<bar>x\<bar> < 2 ^ nat (bitlen m)" by simp
  also have "\<dots> = pow2 (bitlen m)" using bl by (simp add: pow2_nonneg_exp)
  finally have 2: "\<bar>x\<bar> < pow2 (binade x + 1)" by (simp add: b)
  from 1 2 show ?thesis ..
next
  case False
  define y where "y = 1 / \<bar>x\<bar>"
  define n where "n = \<lceil>y\<rceil>"
  have xp: "0 < \<bar>x\<bar>" using assms by simp
  have y1: "1 < y" using False xp by (simp add: y_def)
  have n2: "2 \<le> n" using y1 by (simp add: n_def le_ceiling_iff)
  have m: "0 < n - 1" using n2 by simp
  define j where "j = bitlen (n - 1)"
  have b: "binade x = - j" using False by (simp add: binade_def j_def n_def y_def)
  from bitlen_bounds [OF m] have lo: "2 ^ nat (j - 1) \<le> n - 1" and hi: "n - 1 < 2 ^ nat j"
    by (simp_all add: j_def)
  have j1: "1 \<le> j" using m by (simp add: j_def bitlen_alt_def)
  have "y \<le> real_of_int n" by (simp add: n_def)
  also have "n \<le> 2 ^ nat j" using hi by simp
  then have "real_of_int n \<le> real_of_int (2 ^ nat j)" by (simp only: of_int_le_iff)
  finally have yj: "y \<le> 2 ^ nat j" by simp
  have "real_of_int (2 ^ nat (j - 1)) \<le> real_of_int (n - 1)" using lo by (simp only: of_int_le_iff)
  moreover have "real_of_int (n - 1) < y" by (simp add: n_def) linarith
  ultimately have jy: "2 ^ nat (j - 1) < y" by simp
  have "pow2 (- j) = 1 / 2 ^ nat j" using j1 by (simp add: pow2_def)
  also have "\<dots> \<le> \<bar>x\<bar>"
  proof -
    have "1 \<le> \<bar>x\<bar> * 2 ^ nat j" using yj xp by (simp add: y_def field_simps)
    then show ?thesis by (simp add: field_simps)
  qed
  finally have 1: "pow2 (binade x) \<le> \<bar>x\<bar>" by (simp only: b)
  have "\<bar>x\<bar> * 2 ^ nat (j - 1) < 1" using jy xp by (simp add: y_def field_simps)
  then have "\<bar>x\<bar> < 1 / 2 ^ nat (j - 1)" by (simp add: field_simps)
  also have "\<dots> = pow2 (- j + 1)"
  proof (cases "j = 1")
    case True
    then show ?thesis by (simp add: pow2_def)
  next
    case False
    with j1 have "\<not> 0 \<le> - j + 1" "nat (- (- j + 1)) = nat (j - 1)" by simp_all
    then show ?thesis by (simp add: pow2_def)
  qed
  finally have 2: "\<bar>x\<bar> < pow2 (binade x + 1)" by (simp only: b)
  from 1 2 show ?thesis ..
qed

lemma rne_cases: "rne y = \<lfloor>y\<rfloor> \<or> rne y = \<lfloor>y\<rfloor> + 1"
  by (simp add: rne_def Let_def)

lemma rne_of_int: "rne (of_int n) = n"
  by (simp add: rne_def)

lemma rne_lower: "of_int n \<le> y \<Longrightarrow> n \<le> rne y"
proof -
  assume "of_int n \<le> y"
  then have "n \<le> \<lfloor>y\<rfloor>" by (simp add: le_floor_iff)
  then show ?thesis using rne_cases [of y] by auto
qed

lemma rne_upper: "y \<le> of_int n \<Longrightarrow> rne y \<le> n"
proof (cases "y = of_int n")
  case True
  then show ?thesis by (simp add: rne_of_int)
next
  case False
  assume "y \<le> of_int n"
  with False have "y < of_int n" by simp
  then have "\<lfloor>y\<rfloor> < n" by (simp add: floor_less_iff)
  then show ?thesis using rne_cases [of y] by auto
qed

lemma rne_mono: "a \<le> b \<Longrightarrow> rne a \<le> rne b"
proof -
  assume ab: "a \<le> b"
  then have fl: "\<lfloor>a\<rfloor> \<le> \<lfloor>b\<rfloor>" by (rule floor_mono)
  show ?thesis
  proof (cases "\<lfloor>a\<rfloor> = \<lfloor>b\<rfloor>")
    case True
    then have "a - of_int \<lfloor>a\<rfloor> \<le> b - of_int \<lfloor>b\<rfloor>" using ab by simp
    then show ?thesis using True by (auto simp: rne_def Let_def)
  next
    case False
    with fl have "\<lfloor>a\<rfloor> + 1 \<le> \<lfloor>b\<rfloor>" by simp
    moreover have "rne a \<le> \<lfloor>a\<rfloor> + 1" using rne_cases [of a] by auto
    moreover have "\<lfloor>b\<rfloor> \<le> rne b" using rne_cases [of b] by auto
    ultimately show ?thesis by linarith
  qed
qed

lemma rne_error: "\<bar>of_int (rne y) - y\<bar> \<le> 1 / 2"
proof -
  have "of_int \<lfloor>y\<rfloor> \<le> y" "y < of_int \<lfloor>y\<rfloor> + 1" by linarith+
  then show ?thesis by (auto simp: rne_def Let_def abs_le_iff)
qed

lemma floor_minus_frac:
  assumes "y \<noteq> of_int \<lfloor>y\<rfloor>"
  shows "\<lfloor>- y\<rfloor> = - \<lfloor>y\<rfloor> - 1"
proof (rule floor_unique)
  have "of_int \<lfloor>y\<rfloor> \<le> y" "y < of_int \<lfloor>y\<rfloor> + 1" by linarith+
  then show "of_int (- \<lfloor>y\<rfloor> - 1) \<le> - y" by simp
  have "of_int \<lfloor>y\<rfloor> < y \<or> of_int \<lfloor>y\<rfloor> = y"
    using of_int_floor_le [of y] by (simp only: order_le_less)
  with assms have "of_int \<lfloor>y\<rfloor> < y" by auto
  then show "- y < of_int (- \<lfloor>y\<rfloor> - 1) + 1" by simp
qed

lemma rne_minus: "rne (- y) = - rne y"
proof (cases "y = of_int \<lfloor>y\<rfloor>")
  case True
  then have "rne y = \<lfloor>y\<rfloor>" using rne_of_int [of "\<lfloor>y\<rfloor>"] by simp
  moreover from True have "- y = of_int (- \<lfloor>y\<rfloor>)" by simp
  then have "rne (- y) = - \<lfloor>y\<rfloor>" using rne_of_int [of "- \<lfloor>y\<rfloor>"] by simp
  ultimately show ?thesis by simp
next
  case False
  note fl = floor_minus_frac [OF False]
  define f where "f = \<lfloor>y\<rfloor>"
  define d where "d = y - of_int f"
  have "of_int \<lfloor>y\<rfloor> < y \<or> of_int \<lfloor>y\<rfloor> = y"
    using of_int_floor_le [of y] by (simp only: order_le_less)
  with False have "of_int \<lfloor>y\<rfloor> < y" by auto
  moreover have "y < of_int \<lfloor>y\<rfloor> + 1" by linarith
  ultimately have rng: "0 < d" "d < 1" unfolding d_def f_def by linarith+
  have a: "rne y = (if d < 1 / 2 then f else if 1 / 2 < d then f + 1
                    else if even f then f else f + 1)"
    by (simp add: rne_def Let_def d_def f_def)
  have "- y - of_int (- f - 1) = 1 - d" by (simp add: d_def)
  then have b: "rne (- y) = (if 1 - d < 1 / 2 then - f - 1 else if 1 / 2 < 1 - d then - f
                    else if even (- f - 1) then - f - 1 else - f)"
    by (simp add: rne_def Let_def fl f_def [symmetric])
  consider "d < 1 / 2" | "1 / 2 < d" | "d = 1 / 2" by linarith
  then show ?thesis
  proof cases
    case 1
    then show ?thesis unfolding a b by simp
  next
    case 2
    then show ?thesis unfolding a b by simp
  next
    case 3
    then show ?thesis unfolding a b by simp
  qed
qed

lemma binade_minus: "binade (- x) = binade x"
  by (simp add: binade_def)

lemma to_double_zero: "to_double 0 = 0"
  by (simp add: to_double_def)

lemma to_double_minus: "to_double (- x) = - to_double x"
  by (simp add: to_double_def binade_minus rne_minus Let_def)

lemma scaled_bounds:
  assumes "0 < x"
  shows "2 ^ 52 \<le> x * pow2 (52 - binade x)" and "x * pow2 (52 - binade x) \<le> 2 ^ 53"
proof -
  from assms have nz: "x \<noteq> 0" by simp
  from binade_bounds [OF nz] assms
  have lo: "pow2 (binade x) \<le> x" and hi: "x < pow2 (binade x + 1)" by simp_all
  have p: "0 < pow2 (52 - binade x)" by (rule pow2_pos)
  have "pow2 (binade x) * pow2 (52 - binade x) \<le> x * pow2 (52 - binade x)"
    using lo p by (simp only: mult_le_cancel_right_pos)
  then show "2 ^ 52 \<le> x * pow2 (52 - binade x)"
    by (simp add: pow2_shift pow2_nonneg_exp)
  have "x * pow2 (52 - binade x) \<le> pow2 (binade x + 1) * pow2 (52 - binade x)"
    using hi p by (simp only: mult_le_cancel_right_pos less_imp_le)
  also have "\<dots> = pow2 53"
    using pow2_add [of "binade x + 1" "52 - binade x"] by simp
  finally show "x * pow2 (52 - binade x) \<le> 2 ^ 53" by (simp add: pow2_nonneg_exp)
qed

lemma to_double_pos_bounds:
  assumes "0 < x"
  shows "pow2 (binade x) \<le> to_double x" and "to_double x \<le> pow2 (binade x + 1)"
proof -
  let ?q = "x * pow2 (52 - binade x)"
  have td: "to_double x = of_int (rne ?q) * pow2 (binade x - 52)"
    using assms by (simp add: to_double_def Let_def)
  have p: "0 < pow2 (binade x - 52)" by (rule pow2_pos)
  have "real_of_int (2 ^ 52) \<le> ?q" using scaled_bounds(1) [OF assms] by simp
  then have "2 ^ 52 \<le> rne ?q" by (rule rne_lower)
  then have "real_of_int (2 ^ 52) \<le> real_of_int (rne ?q)" by (simp only: of_int_le_iff)
  then have "2 ^ 52 * pow2 (binade x - 52) \<le> of_int (rne ?q) * pow2 (binade x - 52)"
    using p by (simp only: mult_le_cancel_right_pos) simp
  moreover have "2 ^ 52 * pow2 (binade x - 52) = pow2 (binade x)"
    using pow2_shift [of 52 "binade x"] by (simp add: pow2_nonneg_exp)
  ultimately show "pow2 (binade x) \<le> to_double x" by (simp only: td)
  have "?q \<le> real_of_int (2 ^ 53)" using scaled_bounds(2) [OF assms] by simp
  then have "rne ?q \<le> 2 ^ 53" by (rule rne_upper)
  then have "real_of_int (rne ?q) \<le> real_of_int (2 ^ 53)" by (simp only: of_int_le_iff)
  then have "of_int (rne ?q) * pow2 (binade x - 52) \<le> 2 ^ 53 * pow2 (binade x - 52)"
    using p by (simp only: mult_le_cancel_right_pos) simp
  moreover have "2 ^ 53 * pow2 (binade x - 52) = pow2 (binade x + 1)"
    using pow2_shift [of 53 "binade x + 1"] by (simp add: pow2_nonneg_exp)
  ultimately show "to_double x \<le> pow2 (binade x + 1)" by (simp only: td)
qed

lemma to_double_pos: "0 < x \<Longrightarrow> 0 < to_double x"
  using to_double_pos_bounds(1) [of x] pow2_pos [of "binade x"] by linarith

lemma to_double_neg: "x < 0 \<Longrightarrow> to_double x < 0"
  using to_double_pos [of "- x"] by (simp add: to_double_minus)

lemma to_double_nonneg_iff: "0 \<le> to_double x \<longleftrightarrow> 0 \<le> x"
proof
  assume a: "0 \<le> to_double x"
  show "0 \<le> x"
  proof (rule ccontr)
    assume "\<not> 0 \<le> x"
    then have "x < 0" by simp
    then have "to_double x < 0" by (rule to_double_neg)
    with a show False by simp
  qed
next
  assume "0 \<le> x"
  then consider "x = 0" | "0 < x" by linarith
  then show "0 \<le> to_double x"
  proof cases
    case 1
    then show ?thesis by (simp add: to_double_zero)
  next
    case 2
    then have "0 < to_double x" by (rule to_double_pos)
    then show ?thesis by simp
  qed
qed

lemma binade_mono:
  assumes "0 < x" "x \<le> y"
  shows "binade x \<le> binade y"
proof (rule ccontr)
  assume "\<not> binade x \<le> binade y"
  then have "binade y + 1 \<le> binade x" by simp
  then have "pow2 (binade y + 1) \<le> pow2 (binade x)" by (rule pow2_mono)
  moreover from assms have "x \<noteq> 0" "y \<noteq> 0" "0 < y" by simp_all
  with binade_bounds [of x] binade_bounds [of y] assms
  have "pow2 (binade x) \<le> x" "y < pow2 (binade y + 1)" by simp_all
  ultimately show False using assms(2) by linarith
qed

lemma to_double_mono_pos:
  assumes "0 < x" "x \<le> y"
  shows "to_double x \<le> to_double y"
proof (cases "binade x = binade y")
  case True
  from assms have y: "0 < y" by simp
  have p: "0 < pow2 (52 - binade y)" "0 < pow2 (binade y - 52)" by (rule pow2_pos)+
  have "x * pow2 (52 - binade y) \<le> y * pow2 (52 - binade y)"
    using assms(2) p(1) by (simp only: mult_le_cancel_right_pos)
  then have "rne (x * pow2 (52 - binade y)) \<le> rne (y * pow2 (52 - binade y))" by (rule rne_mono)
  then have "real_of_int (rne (x * pow2 (52 - binade y))) \<le>
             real_of_int (rne (y * pow2 (52 - binade y)))" by (simp only: of_int_le_iff)
  then have "of_int (rne (x * pow2 (52 - binade y))) * pow2 (binade y - 52) \<le>
             of_int (rne (y * pow2 (52 - binade y))) * pow2 (binade y - 52)"
    using p(2) by (simp only: mult_le_cancel_right_pos)
  then show ?thesis using assms(1) y True by (simp add: to_double_def Let_def)
next
  case False
  with binade_mono [OF assms] have "binade x + 1 \<le> binade y" by simp
  then have "pow2 (binade x + 1) \<le> pow2 (binade y)" by (rule pow2_mono)
  moreover from assms have y: "0 < y" by simp
  note to_double_pos_bounds(2) [OF assms(1)] to_double_pos_bounds(1) [OF y]
  ultimately show ?thesis by linarith
qed

lemma to_double_mono:
  assumes "x \<le> y"
  shows "to_double x \<le> to_double y"
proof -
  consider "0 < x" | "x \<le> 0" "0 \<le> y" | "y < 0" using assms by linarith
  then show ?thesis
  proof cases
    case 1
    then show ?thesis using assms by (rule to_double_mono_pos)
  next
    case 2
    then have "to_double x \<le> 0" "0 \<le> to_double y"
      using to_double_nonneg_iff [of y] to_double_neg [of x] to_double_zero
      by (cases "x = 0", auto)
    then show ?thesis by simp
  next
    case 3
    then have "0 < - y" "- y \<le> - x" using assms by simp_all
    then have "to_double (- y) \<le> to_double (- x)" by (rule to_double_mono_pos)
    then show ?thesis by (simp add: to_double_minus)
  qed
qed

lemma to_double_error: "\<bar>to_double x - x\<bar> \<le> \<bar>x\<bar> / 2 ^ 53"
proof (cases "x = 0")
  case True
  then show ?thesis by (simp add: to_double_zero)
next
  case False
  let ?e = "binade x"
  let ?q = "x * pow2 (52 - ?e)"
  have p: "0 < pow2 (?e - 52)" by (rule pow2_pos)
  have x: "x = ?q * pow2 (?e - 52)"
    using pow2_add [of "52 - ?e" "?e - 52"] by (simp add: pow2_def)
  have "to_double x - x = (of_int (rne ?q) - ?q) * pow2 (?e - 52)"
    using False x by (simp add: to_double_def Let_def algebra_simps)
  then have "\<bar>to_double x - x\<bar> = \<bar>of_int (rne ?q) - ?q\<bar> * pow2 (?e - 52)"
    using p by (simp add: abs_mult)
  also have "\<dots> \<le> 1 / 2 * pow2 (?e - 52)"
    using rne_error [of ?q] p by (simp only: mult_le_cancel_right_pos)
  also have "\<dots> = pow2 ?e / 2 ^ 53"
    using pow2_shift [of 52 ?e] by (simp add: pow2_nonneg_exp)
  also have "\<dots> \<le> \<bar>x\<bar> / 2 ^ 53"
    using binade_bounds [OF False] by (simp add: divide_right_mono)
  finally show ?thesis .
qed

lemma duration_ms_nonneg_iff: "0 \<le> duration_ms start end \<longleftrightarrow> start \<le> end"
  by (simp add: duration_ms_def Let_def to_double_nonneg_iff zero_le_mult_iff zero_le_divide_iff)

lemma duration_ms_mono: "e \<le> e' \<Longrightarrow> duration_ms start e \<le> duration_ms start e'"
  unfolding duration_ms_def Let_def
  by (intro to_double_mono mult_right_mono divide_right_mono) simp_all

lemma duration_ms_error:
  "\<bar>duration_ms start end - real_of_int (end - start) / 1000\<bar> \<le>
     \<bar>real_of_int (end - start) / 1000\<bar> / 2 ^ 51"
proof -
  define y where "y = real_of_int (end - start) / 1000000"
  define a where "a = to_double y"
  define b where "b = to_double (a * 1000)"
  have d: "duration_ms start end = b" by (simp add: duration_ms_def Let_def b_def a_def y_def)
  have m: "real_of_int (end - start) / 1000 = y * 1000" by (simp add: y_def)
  have 1: "\<bar>a - y\<bar> \<le> \<bar>y\<bar> / 2 ^ 53" unfolding a_def by (rule to_double_error)
  have 2: "\<bar>b - a * 1000\<bar> \<le> \<bar>a * 1000\<bar> / 2 ^ 53" unfolding b_def by (rule to_double_error)
  have "\<bar>a\<bar> \<le> \<bar>y\<bar> + \<bar>y\<bar> / 2 ^ 53" using 1 by linarith
  then have 3: "\<bar>a * 1000\<bar> \<le> 2000 * \<bar>y\<bar>" by (simp add: abs_mult) 
  have "b - y * 1000 = (b - a * 1000) + 1000 * (a - y)" by simp
  then have "\<bar>b - y * 1000\<bar> \<le> \<bar>b - a * 1000\<bar> + \<bar>1000 * (a - y)\<bar>"
    by (simp only: abs_triangle_ineq)
  moreover have "\<bar>1000 * (a - y)\<bar> = 1000 * \<bar>a - y\<bar>"
    using abs_mult [of 1000 "a - y"] by simp
  ultimately have "\<bar>b - y * 1000\<bar> \<le> \<bar>b - a * 1000\<bar> + 1000 * \<bar>a - y\<bar>"
    by (simp only:)
  also have "\<dots> \<le> 2000 * \<bar>y\<bar> / 2 ^ 53 + 1000 * (\<bar>y\<bar> / 2 ^ 53)"
    using 1 2 3 by (simp add: divide_right_mono) 
  also have "\<dots> \<le> \<bar>y * 1000\<bar> / 2 ^ 51" by (simp add: abs_mult)
  finally show ?thesis unfolding d m .
qed

lemma duration_ms_strict:
  assumes "b < b'" "\<bar>b - a\<bar> < 2 ^ 50" "\<bar>b' - a\<bar> < 2 ^ 50"
  shows "duration_ms a b < duration_ms a b'"
proof -
  define d where "d = real_of_int (b - a)"
  define d' where "d' = real_of_int (b' - a)"
  have "b - a + 1 \<le> b' - a" using assms(1) by simp
  then have "real_of_int (b - a + 1) \<le> real_of_int (b' - a)" by (simp only: of_int_le_iff)
  then have gap: "d + 1 \<le> d'" by (simp add: d_def d'_def)
  have "real_of_int \<bar>b - a\<bar> < real_of_int (2 ^ 50)" using assms(2) by (simp only: of_int_less_iff)
  then have sd: "\<bar>d\<bar> < 2 ^ 50" by (simp add: d_def)
  have "real_of_int \<bar>b' - a\<bar> < real_of_int (2 ^ 50)" using assms(3) by (simp only: of_int_less_iff)
  then have sd': "\<bar>d'\<bar> < 2 ^ 50" by (simp add: d'_def)
  have e: "\<bar>duration_ms a b - d / 1000\<bar> \<le> \<bar>d / 1000\<bar> / 2 ^ 51"
    unfolding d_def by (rule duration_ms_error)
  have e': "\<bar>duration_ms a b' - d' / 1000\<bar> \<le> \<bar>d' / 1000\<bar> / 2 ^ 51"
    unfolding d'_def by (rule duration_ms_error)
  have s: "\<bar>d / 1000\<bar> / 2 ^ 51 < 1 / 2000" using sd by simp
  have s': "\<bar>d' / 1000\<bar> / 2 ^ 51 < 1 / 2000" using sd' by simp
  have "duration_ms a b < d / 1000 + 1 / 2000" using e s by linarith
  moreover have "d' / 1000 - 1 / 2000 < duration_ms a b'" using e' s' by linarith
  moreover have "d / 1000 + 1 / 2000 \<le> d' / 1000 - 1 / 2000" using gap by simp
  ultimately show ?thesis by linarith
qed

section \<open>Trace reconstruction\<close>

lemma waterfall_loop_eq: "waterfall_loop clock k rs acc = acc @ waterfall_from clock k rs"
  by (induction rs arbitrary: k acc) (simp_all split: option.split)

lemma length_waterfall_from: "length (waterfall_from clock k rs) = length rs"
  by (induction rs arbitrary: k) (simp_all split: option.split)

lemma reads_before_0: "reads_before rs 0 = 0"
  by (simp add: reads_before_def)

lemma reads_before_Suc:
  "reads_before (r # rs) (Suc i) = (if end_ts r = None then 1 else 0) + reads_before rs i"
  by (simp add: reads_before_def)

lemma waterfall_from_nth:
  "i < length rs \<Longrightarrow>
   waterfall_from clock k rs ! i =
     \<lparr>w_service = service (rs ! i), w_operation = operation (rs ! i),
      w_duration_ms =
        duration_ms (start_ts (rs ! i))
          (case end_ts (rs ! i) of Some e \<Rightarrow> e | None \<Rightarrow> clock (k + reads_before rs i)),
      w_status = status (rs ! i)\<rparr>"
proof (induction rs arbitrary: k i)
  case Nil
  then show ?case by simp
next
  case (Cons r rs)
  show ?case
  proof (cases i)
    case 0
    then show ?thesis by (simp add: reads_before_0 split: option.split)
  next
    case (Suc j)
    with Cons.prems have j: "j < length rs" by simp
    show ?thesis
    proof (cases "end_ts r")
      case None
      then show ?thesis using Suc Cons.IH [OF j, of "Suc k"]
        by (simp add: reads_before_Suc split: option.split)
    next
      case (Some e)
      then show ?thesis using Suc Cons.IH [OF j, of k]
        by (simp add: reads_before_Suc split: option.split)
    qed
  qed
qed

lemma tv_spans_get_trace: "tv_spans (get_trace s clock tid) = query_spans s tid"
  by (simp add: get_trace_def Let_def)

lemma tv_waterfall_get_trace:
  "tv_waterfall (get_trace s clock tid) = waterfall_from clock 0 (query_spans s tid)"
  by (simp add: get_trace_def Let_def waterfall_loop_eq)

lemma tv_waterfall_nth:
  "i < length (query_spans s tid) \<Longrightarrow>
   tv_waterfall (get_trace s clock tid) ! i =
     \<lparr>w_service = service (query_spans s tid ! i),
      w_operation = operation (query_spans s tid ! i),
      w_duration_ms =
        duration_ms (start_ts (query_spans s tid ! i))
          (case end_ts (query_spans s tid ! i) of
             Some e \<Rightarrow> e
           | None \<Rightarrow> clock (reads_before (query_spans s tid) i)),
      w_status = status (query_spans s tid ! i)\<rparr>"
  by (simp add: tv_waterfall_get_trace waterfall_from_nth split: option.split)

lemma mset_query_spans:
  "mset (query_spans s tid) = filter_mset (\<lambda>r. trace_id r = tid) (mset (spans s))"
  by (simp add: query_spans_def)

lemma sorted_query_spans: "sorted (map start_ts (query_spans s tid))"
  by (simp add: query_spans_def)

lemma starts_query_spans:
  "map start_ts (query_spans s tid) =
     sort (map start_ts (filter (\<lambda>r. trace_id r = tid) (spans s)))"
proof (rule sym, rule properties_for_sort)
  show "mset (map start_ts (query_spans s tid)) =
        mset (map start_ts (filter (\<lambda>r. trace_id r = tid) (spans s)))"
    by (simp add: query_spans_def)
  show "sorted (map start_ts (query_spans s tid))" by (rule sorted_query_spans)
qed

lemma starts_query_spans_perm:
  assumes "mset (spans s') = mset (spans s)"
  shows "map start_ts (query_spans s' tid) = map start_ts (query_spans s tid)"
proof -
  have "mset (map start_ts (filter (\<lambda>r. trace_id r = tid) (spans s'))) =
        mset (map start_ts (filter (\<lambda>r. trace_id r = tid) (spans s)))"
    using assms by simp
  then have "sort (map start_ts (filter (\<lambda>r. trace_id r = tid) (spans s'))) =
             sort (map start_ts (filter (\<lambda>r. trace_id r = tid) (spans s)))"
    by (intro properties_for_sort) simp_all
  then show ?thesis by (simp only: starts_query_spans)
qed

text \<open>
  Claim C4. The spans \<open>get_trace\<close> returns for a trace id are exactly the stored spans
  carrying that id, each as often as it is stored (so two spans of the trace with
  different span ids both appear), in ascending order of start time. The order of
  insertion does not matter: on a store holding the same spans in another order the
  result has the same spans and the same sequence of start times. For a trace id that no
  stored span carries the result is the ordinary value with no spans and an empty
  waterfall.
\<close>

theorem get_trace_spans_sorted:
  "mset (tv_spans (get_trace s clock tid)) =
     filter_mset (\<lambda>r. trace_id r = tid) (mset (spans s)) \<and>
   sorted (map start_ts (tv_spans (get_trace s clock tid))) \<and>
   (mset (spans s') = mset (spans s) \<longrightarrow>
      mset (tv_spans (get_trace s' clock' tid)) = mset (tv_spans (get_trace s clock tid)) \<and>
      map start_ts (tv_spans (get_trace s' clock' tid)) =
        map start_ts (tv_spans (get_trace s clock tid))) \<and>
   ((\<forall>r \<in> set (spans s). trace_id r \<noteq> tid) \<longrightarrow>
      get_trace s clock tid = \<lparr>tv_trace_id = tid, tv_spans = [], tv_waterfall = []\<rparr>)"
proof (intro conjI impI)
  show "mset (tv_spans (get_trace s clock tid)) =
     filter_mset (\<lambda>r. trace_id r = tid) (mset (spans s))"
    by (simp only: tv_spans_get_trace mset_query_spans)
  show "sorted (map start_ts (tv_spans (get_trace s clock tid)))"
    by (simp only: tv_spans_get_trace sorted_query_spans)
  show "mset (tv_spans (get_trace s' clock' tid)) = mset (tv_spans (get_trace s clock tid))"
    if "mset (spans s') = mset (spans s)"
    using that by (simp only: tv_spans_get_trace mset_query_spans)
  show "map start_ts (tv_spans (get_trace s' clock' tid)) =
        map start_ts (tv_spans (get_trace s clock tid))"
    if "mset (spans s') = mset (spans s)"
    using that unfolding tv_spans_get_trace by (rule starts_query_spans_perm)
  show "get_trace s clock tid = \<lparr>tv_trace_id = tid, tv_spans = [], tv_waterfall = []\<rparr>"
    if "\<forall>r \<in> set (spans s). trace_id r \<noteq> tid"
  proof -
    from that have "filter (\<lambda>r. trace_id r = tid) (spans s) = []"
      by (simp add: filter_empty_conv)
    then show ?thesis by (simp add: get_trace_def query_spans_def)
  qed
qed

text \<open>
  The same at a store into which the later span of trace \<^verbatim>\<open>t1\<close> was inserted first,
  a span of another trace second and the earlier span of \<^verbatim>\<open>t1\<close> last.
\<close>

theorem get_trace_spans_sorted_witness:
  "tv_spans (get_trace c4_store (\<lambda>k. 9000) ''t1'') = [c4_early, c4_late] \<and>
   sorted (map start_ts (tv_spans (get_trace c4_store (\<lambda>k. 9000) ''t1''))) \<and>
   map start_ts
     (tv_spans (get_trace (c4_store\<lparr>spans := [c4_early, c4_other, c4_late]\<rparr>) (\<lambda>k. 9000) ''t1''))
     = map start_ts (tv_spans (get_trace c4_store (\<lambda>k. 9000) ''t1'')) \<and>
   get_trace c4_store (\<lambda>k. 9000) ''t9'' =
     \<lparr>tv_trace_id = ''t9'', tv_spans = [], tv_waterfall = []\<rparr>"
proof -
  note t = get_trace_spans_sorted [of c4_store "\<lambda>k. 9000" "''t1''"
      "c4_store\<lparr>spans := [c4_early, c4_other, c4_late]\<rparr>" "\<lambda>k. 9000"]
  note u = get_trace_spans_sorted [of c4_store "\<lambda>k. 9000" "''t9''" c4_store "\<lambda>k. 9000"]
  have 1: "tv_spans (get_trace c4_store (\<lambda>k. 9000) ''t1'') = [c4_early, c4_late]"
    by (simp add: tv_spans_get_trace query_spans_def c4_store_def c4_early_def c4_late_def
        c4_other_def)
  have 2: "sorted (map start_ts (tv_spans (get_trace c4_store (\<lambda>k. 9000) ''t1'')))"
    using t by (elim conjE)
  have p: "mset (spans (c4_store\<lparr>spans := [c4_early, c4_other, c4_late]\<rparr>)) =
           mset (spans c4_store)"
    by (simp add: c4_store_def)
  have 3: "map start_ts
             (tv_spans (get_trace (c4_store\<lparr>spans := [c4_early, c4_other, c4_late]\<rparr>)
                (\<lambda>k. 9000) ''t1''))
           = map start_ts (tv_spans (get_trace c4_store (\<lambda>k. 9000) ''t1''))"
    using t p by (elim conjE) (drule (1) mp, elim conjE)
  have n: "\<forall>r \<in> set (spans c4_store). trace_id r \<noteq> ''t9''"
    by (simp add: c4_store_def c4_early_def c4_late_def c4_other_def)
  have 4: "get_trace c4_store (\<lambda>k. 9000) ''t9'' =
           \<lparr>tv_trace_id = ''t9'', tv_spans = [], tv_waterfall = []\<rparr>"
    using u n by (elim conjE) (drule (1) mp)
  from 1 2 3 4 show ?thesis by (intro conjI)
qed

text \<open>
  Claim C10. The waterfall has as many entries as there are spans, and the entry at each
  index repeats the service, operation and status of the span at that index.
\<close>

theorem get_trace_waterfall_aligned:
  "length (tv_waterfall (get_trace s clock tid)) = length (tv_spans (get_trace s clock tid)) \<and>
   (\<forall>i < length (tv_spans (get_trace s clock tid)).
      w_service (tv_waterfall (get_trace s clock tid) ! i) =
        service (tv_spans (get_trace s clock tid) ! i) \<and>
      w_operation (tv_waterfall (get_trace s clock tid) ! i) =
        operation (tv_spans (get_trace s clock tid) ! i) \<and>
      w_status (tv_waterfall (get_trace s clock tid) ! i) =
        status (tv_spans (get_trace s clock tid) ! i))"
proof (intro conjI allI impI)
  show "length (tv_waterfall (get_trace s clock tid)) = length (tv_spans (get_trace s clock tid))"
    by (simp add: tv_spans_get_trace tv_waterfall_get_trace length_waterfall_from)
next
  fix i assume "i < length (tv_spans (get_trace s clock tid))"
  then have i: "i < length (query_spans s tid)" by (simp only: tv_spans_get_trace)
  show "w_service (tv_waterfall (get_trace s clock tid) ! i) =
        service (tv_spans (get_trace s clock tid) ! i)"
    by (simp add: tv_waterfall_nth [OF i] tv_spans_get_trace)
  show "w_operation (tv_waterfall (get_trace s clock tid) ! i) =
        operation (tv_spans (get_trace s clock tid) ! i)"
    by (simp add: tv_waterfall_nth [OF i] tv_spans_get_trace)
  show "w_status (tv_waterfall (get_trace s clock tid) ! i) =
        status (tv_spans (get_trace s clock tid) ! i)"
    by (simp add: tv_waterfall_nth [OF i] tv_spans_get_trace)
qed

theorem get_trace_waterfall_aligned_witness:
  "length (tv_waterfall (get_trace c4_store (\<lambda>k. 9000) ''t1'')) = 2 \<and>
   w_service (tv_waterfall (get_trace c4_store (\<lambda>k. 9000) ''t1'') ! 1) = ''api'' \<and>
   w_operation (tv_waterfall (get_trace c4_store (\<lambda>k. 9000) ''t1'') ! 1) = ''query'' \<and>
   w_status (tv_waterfall (get_trace c4_store (\<lambda>k. 9000) ''t1'') ! 1) = ''ok''"
proof -
  have 1: "tv_spans (get_trace c4_store (\<lambda>k. 9000) ''t1'') = [c4_early, c4_late]"
    by (simp add: tv_spans_get_trace query_spans_def c4_store_def c4_early_def c4_late_def
        c4_other_def)
  have 2: "service c4_late = ''api''" "operation c4_late = ''query''" "status c4_late = ''ok''"
    by (simp_all add: c4_late_def)
  show ?thesis
    using get_trace_waterfall_aligned [of c4_store "\<lambda>k. 9000" "''t1''"] 2
    unfolding 1 by simp
qed

subsection \<open>Durations\<close>

lemma set_query_spans:
  "set (query_spans s tid) = {r \<in> set (spans s). trace_id r = tid}"
  by (simp add: query_spans_def)

lemma start_span_Inr:
  assumes "start_span s t0 ut us svc op tr par = Inr (sid, s1)"
  shows "sid = us" and "us \<notin> set (map span_id (spans s))"
    and "spans s1 = spans s @
           [\<lparr>trace_id = (case tr of None \<Rightarrow> ut | Some t \<Rightarrow> t), span_id = us,
             parent_span_id = par, service = svc, operation = op, start_ts = t0,
             end_ts = None, status = ''ok'', tags = []\<rparr>]"
  using assms by (auto simp: start_span_def Let_def split: if_splits)

lemma end_span_Inr:
  assumes "end_span s now sid st tg = Inr ((), s')"
  shows "spans s' = map (update_span now st (or_empty tg) sid) (spans s)"
  using assms by (auto simp: end_span_def Let_def)

lemma update_span_other:
  "sid \<notin> set (map span_id rs) \<Longrightarrow> map (update_span now st tg sid) rs = rs"
  by (induction rs) (auto simp: update_span_def)

lemma started_then_ended:
  assumes a: "start_span s t0 ut us svc op tr par = Inr (sid, s1)"
    and b: "end_span s1 t1 sid st tg = Inr ((), s2)"
  shows "spans s2 = spans s @
           [\<lparr>trace_id = (case tr of None \<Rightarrow> ut | Some t \<Rightarrow> t), span_id = sid,
             parent_span_id = par, service = svc, operation = op, start_ts = t0,
             end_ts = Some t1, status = st, tags = or_empty tg\<rparr>]"
    and "sid \<notin> set (map span_id (spans s))"
proof -
  from start_span_Inr [OF a] have sid: "sid = us"
    and fresh: "sid \<notin> set (map span_id (spans s))"
    and s1: "spans s1 = spans s @
           [\<lparr>trace_id = (case tr of None \<Rightarrow> ut | Some t \<Rightarrow> t), span_id = sid,
             parent_span_id = par, service = svc, operation = op, start_ts = t0,
             end_ts = None, status = ''ok'', tags = []\<rparr>]"
    by simp_all
  show "sid \<notin> set (map span_id (spans s))" by (rule fresh)
  show "spans s2 = spans s @
           [\<lparr>trace_id = (case tr of None \<Rightarrow> ut | Some t \<Rightarrow> t), span_id = sid,
             parent_span_id = par, service = svc, operation = op, start_ts = t0,
             end_ts = Some t1, status = st, tags = or_empty tg\<rparr>]"
    unfolding end_span_Inr [OF b] s1
    by (simp add: update_span_other [OF fresh]) (simp add: update_span_def)
qed

lemma ended_row:
  assumes a: "start_span s t0 ut us svc op tr par = Inr (sid, s1)"
    and b: "end_span s1 t1 sid st tg = Inr ((), s2)"
    and r: "r \<in> set (spans s2)" "span_id r = sid"
  shows "start_ts r = t0 \<and> end_ts r = Some t1"
proof -
  note s2 = started_then_ended [OF a b]
  from r(1) consider "r \<in> set (spans s)"
    | "r = \<lparr>trace_id = (case tr of None \<Rightarrow> ut | Some t \<Rightarrow> t), span_id = sid,
             parent_span_id = par, service = svc, operation = op, start_ts = t0,
             end_ts = Some t1, status = st, tags = or_empty tg\<rparr>"
    unfolding s2(1) by auto
  then show ?thesis
  proof cases
    case 1
    then have "span_id r \<in> set (map span_id (spans s))" by simp
    with r(2) s2(2) show ?thesis by simp
  next
    case 2
    then show ?thesis by simp
  qed
qed

lemma duration_at:
  assumes "i < length (query_spans s tid)"
  shows "w_duration_ms (tv_waterfall (get_trace s clock tid) ! i) =
           duration_ms (start_ts (query_spans s tid ! i))
             (case end_ts (query_spans s tid ! i) of
                Some e \<Rightarrow> e
              | None \<Rightarrow> clock (reads_before (query_spans s tid) i))"
  by (simp add: tv_waterfall_nth [OF assms])

lemma ended_fixed:
  assumes "i < length (query_spans s tid)"
    and "end_ts (query_spans s tid ! i) \<noteq> None"
  shows "w_duration_ms (tv_waterfall (get_trace s clock1 tid) ! i) =
         w_duration_ms (tv_waterfall (get_trace s clock2 tid) ! i)"
proof -
  from assms(2) obtain x where "end_ts (query_spans s tid ! i) = Some x" by blast
  then show ?thesis by (simp add: duration_at [OF assms(1)])
qed

lemma in_flight_mono:
  assumes "i < length (query_spans s tid)"
    and "end_ts (query_spans s tid ! i) = None"
    and "clock1 (reads_before (query_spans s tid) i) \<le> clock2 (reads_before (query_spans s tid) i)"
  shows "w_duration_ms (tv_waterfall (get_trace s clock1 tid) ! i) \<le>
         w_duration_ms (tv_waterfall (get_trace s clock2 tid) ! i)"
  using assms(3) by (simp add: duration_at [OF assms(1)] assms(2) duration_ms_mono)

lemma in_flight_grows:
  assumes "i < length (query_spans s tid)"
    and "end_ts (query_spans s tid ! i) = None"
    and "clock1 (reads_before (query_spans s tid) i) < clock2 (reads_before (query_spans s tid) i)"
    and "\<bar>clock1 (reads_before (query_spans s tid) i) - start_ts (query_spans s tid ! i)\<bar> < 2 ^ 50"
    and "\<bar>clock2 (reads_before (query_spans s tid) i) - start_ts (query_spans s tid ! i)\<bar> < 2 ^ 50"
  shows "w_duration_ms (tv_waterfall (get_trace s clock1 tid) ! i) <
         w_duration_ms (tv_waterfall (get_trace s clock2 tid) ! i)"
  using duration_ms_strict [OF assms(3) assms(4) assms(5)]
  by (simp add: duration_at [OF assms(1)] assms(2))

lemma ended_span_found:
  assumes a: "start_span s t0 ut us svc op tr par = Inr (sid, s1)"
    and b: "end_span s1 t1 sid st tg = Inr ((), s2)"
  shows "\<exists>i < length (query_spans s2 (case tr of None \<Rightarrow> ut | Some t \<Rightarrow> t)).
           span_id (query_spans s2 (case tr of None \<Rightarrow> ut | Some t \<Rightarrow> t) ! i) = sid"
proof -
  let ?tid = "case tr of None \<Rightarrow> ut | Some t \<Rightarrow> t"
  let ?r = "\<lparr>trace_id = ?tid, span_id = sid,
             parent_span_id = par, service = svc, operation = op, start_ts = t0,
             end_ts = Some t1, status = st, tags = or_empty tg\<rparr>"
  have "?r \<in> set (spans s2)" unfolding started_then_ended(1) [OF a b] by simp
  then have "?r \<in> set (query_spans s2 ?tid)" by (simp add: set_query_spans)
  then obtain i where "i < length (query_spans s2 ?tid)" "query_spans s2 ?tid ! i = ?r"
    unfolding in_set_conv_nth by blast
  then have "i < length (query_spans s2 ?tid) \<and> span_id (query_spans s2 ?tid ! i) = sid"
    by simp
  then show ?thesis by blast
qed

lemma ended_span_duration:
  assumes a: "start_span s t0 ut us svc op tr par = Inr (sid, s1)"
    and b: "end_span s1 t1 sid st tg = Inr ((), s2)"
    and i: "i < length (query_spans s2 tid')"
    and sid: "span_id (query_spans s2 tid' ! i) = sid"
  shows "end_ts (query_spans s2 tid' ! i) = Some t1"
    and "w_duration_ms (tv_waterfall (get_trace s2 clock tid') ! i) = duration_ms t0 t1"
    and "(0 \<le> w_duration_ms (tv_waterfall (get_trace s2 clock tid') ! i)) = (t0 \<le> t1)"
proof -
  from i have "query_spans s2 tid' ! i \<in> set (query_spans s2 tid')" by (rule nth_mem)
  then have "query_spans s2 tid' ! i \<in> set (spans s2)" by (simp add: set_query_spans)
  from ended_row [OF a b this sid]
  have st: "start_ts (query_spans s2 tid' ! i) = t0"
    and en: "end_ts (query_spans s2 tid' ! i) = Some t1" by simp_all
  show "end_ts (query_spans s2 tid' ! i) = Some t1" by (rule en)
  show d: "w_duration_ms (tv_waterfall (get_trace s2 clock tid') ! i) = duration_ms t0 t1"
    by (simp add: duration_at [OF i] en st)
  show "(0 \<le> w_duration_ms (tv_waterfall (get_trace s2 clock tid') ! i)) = (t0 \<le> t1)"
    unfolding d by (rule duration_ms_nonneg_iff)
qed

text \<open>
  Claim C5, as the code has it. The spans of the result do not depend on the clock. The
  duration of the waterfall entry at an index is \<open>duration_ms\<close>, the double-precision
  value of \<^verbatim>\<open>total_seconds() * 1000\<close>, of the span's start and of its end when the end is
  set, or of the clock reading the loop takes for that span when it has none (one reading
  for each span without end, in order). \<open>duration_ms\<close> differs from the exact difference
  in milliseconds by at most the fraction \<open>2^-51\<close> of it, and it is not negative exactly
  when the end is not before the start. Between two calls on the same store the duration
  of an ended span is the same; the duration of a span in flight does not shrink when
  the second call's reading for it is not earlier than the first call's, and it grows
  strictly when that reading is later and both readings are less than \<open>2^50\<close>
  microseconds away from the start. After \<open>start_span\<close> at clock \<open>t0\<close> and \<open>end_span\<close> of
  that span at clock \<open>t1\<close> the span is in its trace with end \<open>t1\<close>, and its duration is
  \<open>duration_ms t0 t1\<close>, which is not negative exactly when \<open>t0 \<le> t1\<close>.
\<close>

theorem get_trace_durations:
  "tv_spans (get_trace s clock tid) = query_spans s tid \<and>
   (\<forall>i < length (query_spans s tid).
      w_duration_ms (tv_waterfall (get_trace s clock tid) ! i) =
        duration_ms (start_ts (query_spans s tid ! i))
          (case end_ts (query_spans s tid ! i) of
             Some e \<Rightarrow> e
           | None \<Rightarrow> clock (reads_before (query_spans s tid) i))) \<and>
   \<bar>duration_ms a b - real_of_int (b - a) / 1000\<bar> \<le> \<bar>real_of_int (b - a) / 1000\<bar> / 2 ^ 51 \<and>
   (0 \<le> duration_ms a b) = (a \<le> b) \<and>
   (\<forall>i < length (query_spans s tid).
      (end_ts (query_spans s tid ! i) \<noteq> None \<longrightarrow>
         w_duration_ms (tv_waterfall (get_trace s clock1 tid) ! i) =
         w_duration_ms (tv_waterfall (get_trace s clock2 tid) ! i)) \<and>
      (end_ts (query_spans s tid ! i) = None \<and>
       clock1 (reads_before (query_spans s tid) i) \<le> clock2 (reads_before (query_spans s tid) i) \<longrightarrow>
         w_duration_ms (tv_waterfall (get_trace s clock1 tid) ! i) \<le>
         w_duration_ms (tv_waterfall (get_trace s clock2 tid) ! i)) \<and>
      (end_ts (query_spans s tid ! i) = None \<and>
       clock1 (reads_before (query_spans s tid) i) < clock2 (reads_before (query_spans s tid) i) \<and>
       \<bar>clock1 (reads_before (query_spans s tid) i) - start_ts (query_spans s tid ! i)\<bar> < 2 ^ 50 \<and>
       \<bar>clock2 (reads_before (query_spans s tid) i) - start_ts (query_spans s tid ! i)\<bar> < 2 ^ 50 \<longrightarrow>
         w_duration_ms (tv_waterfall (get_trace s clock1 tid) ! i) <
         w_duration_ms (tv_waterfall (get_trace s clock2 tid) ! i))) \<and>
   (start_span s t0 ut us svc op tr par = Inr (sid, s1) \<and>
    end_span s1 t1 sid st tg = Inr ((), s2) \<longrightarrow>
      (\<exists>i < length (query_spans s2 (case tr of None \<Rightarrow> ut | Some t \<Rightarrow> t)).
         span_id (query_spans s2 (case tr of None \<Rightarrow> ut | Some t \<Rightarrow> t) ! i) = sid) \<and>
      (\<forall>tid' i. i < length (query_spans s2 tid') \<and> span_id (query_spans s2 tid' ! i) = sid \<longrightarrow>
         end_ts (query_spans s2 tid' ! i) = Some t1 \<and>
         w_duration_ms (tv_waterfall (get_trace s2 clock tid') ! i) = duration_ms t0 t1 \<and>
         (0 \<le> w_duration_ms (tv_waterfall (get_trace s2 clock tid') ! i)) = (t0 \<le> t1)))"
  apply (intro conjI impI allI)
  subgoal by (rule tv_spans_get_trace)
  subgoal for i by (rule duration_at)
  subgoal by (rule duration_ms_error)
  subgoal by (rule duration_ms_nonneg_iff)
  subgoal for i by (rule ended_fixed)
  subgoal for i by (elim conjE) (rule in_flight_mono)
  subgoal for i by (elim conjE) (rule in_flight_grows)
  subgoal by (elim conjE) (rule ended_span_found)
  subgoal for tid' i by (elim conjE) (rule ended_span_duration(1))
  subgoal for tid' i by (elim conjE) (rule ended_span_duration(2))
  subgoal for tid' i by (elim conjE) (rule ended_span_duration(3))
  done

text \<open>
  The same at concrete inputs: a trace with an ended span of 1.5 ms and a span in flight,
  read at clock 9000 and, in a second call, at clock 9500; a trace with two spans in
  flight, for which the loop reads the clock twice (1000, then 1500); and a span started
  at clock 10 and ended at clock 25, whose duration is the double next to 0.015.
\<close>

theorem get_trace_durations_witness:
  "w_duration_ms (tv_waterfall (get_trace c4_store (\<lambda>k. 9000) ''t1'') ! 0) = 3 / 2 \<and>
   w_duration_ms (tv_waterfall (get_trace c4_store (\<lambda>k. 9000) ''t1'') ! 1) = 4 \<and>
   w_duration_ms (tv_waterfall (get_trace c4_store (\<lambda>k. 9500) ''t1'') ! 1) = 9 / 2 \<and>
   w_duration_ms (tv_waterfall (get_trace c4_store (\<lambda>k. 9000) ''t1'') ! 1) <
     w_duration_ms (tv_waterfall (get_trace c4_store (\<lambda>k. 9500) ''t1'') ! 1) \<and>
   w_duration_ms (tv_waterfall (get_trace c4_store (\<lambda>k. 9000) ''t1'') ! 0) =
     w_duration_ms (tv_waterfall (get_trace c4_store (\<lambda>k. 9500) ''t1'') ! 0) \<and>
   w_duration_ms
     (tv_waterfall (get_trace c5_two_in_flight (\<lambda>k. 1000 + 500 * int k) ''tw'') ! 0) =
     8106479329266893 / 9007199254740992 \<and>
   w_duration_ms
     (tv_waterfall (get_trace c5_two_in_flight (\<lambda>k. 1000 + 500 * int k) ''tw'') ! 1) =
     5854679515581645 / 4503599627370496 \<and>
   start_span empty_store 10 ''tr'' ''sp'' ''gateway'' ''login'' None None =
     Inr (''sp'', c5_started) \<and>
   end_span c5_started 25 ''sp'' ''error'' None = Inr ((), c5_ended) \<and>
   w_duration_ms (tv_waterfall (get_trace c5_ended (\<lambda>k. 99) ''tr'') ! 0) =
     8646911284551353 / 576460752303423488 \<and>
   0 \<le> w_duration_ms (tv_waterfall (get_trace c5_ended (\<lambda>k. 99) ''tr'') ! 0)"
proof -
  note ev = duration_ms_def Let_def to_double_def binade_def rne_def pow2_def compute_bitlen
  have q: "query_spans c4_store ''t1'' = [c4_early, c4_late]"
    by (simp add: query_spans_def c4_store_def c4_early_def c4_late_def c4_other_def)
  have e: "end_ts c4_early = Some 4500" "start_ts c4_early = 3000"
    "end_ts c4_late = None" "start_ts c4_late = 5000"
    by (simp_all add: c4_early_def c4_late_def)
  have rb: "reads_before [c4_early, c4_late] 1 = 0"
    by (simp add: reads_before_def e)
  have d1: "duration_ms 3000 4500 = 3 / 2" by (simp add: ev)
  have d2: "duration_ms 5000 9000 = 4" by (simp add: ev)
  have d3: "duration_ms 5000 9500 = 9 / 2" by (simp add: ev)
  note T = get_trace_durations [where s = c4_store and tid = "''t1''"
      and ?clock1.0 = "\<lambda>k. 9000" and ?clock2.0 = "\<lambda>k. 9500"]
  note A = T [THEN conjunct2, THEN conjunct1, rule_format]
  note B = T [THEN conjunct2, THEN conjunct2, THEN conjunct2, THEN conjunct2, THEN conjunct1,
      rule_format]
  have l0: "0 < length (query_spans c4_store ''t1'')" and l1: "1 < length (query_spans c4_store ''t1'')"
    by (simp_all add: q)
  have 1: "w_duration_ms (tv_waterfall (get_trace c4_store (\<lambda>k. 9000) ''t1'') ! 0) = 3 / 2"
    using A [OF l0, of "\<lambda>k. 9000"] by (simp add: q e d1)
  have 2: "w_duration_ms (tv_waterfall (get_trace c4_store (\<lambda>k. 9000) ''t1'') ! 1) = 4"
    using A [OF l1, of "\<lambda>k. 9000"] by (simp add: q e d2)
  have 3: "w_duration_ms (tv_waterfall (get_trace c4_store (\<lambda>k. 9500) ''t1'') ! 1) = 9 / 2"
    using A [OF l1, of "\<lambda>k. 9500"] by (simp add: q e d3)
  have g: "end_ts (query_spans c4_store ''t1'' ! 1) = None \<and>
           (\<lambda>k. 9000) (reads_before (query_spans c4_store ''t1'') 1) <
           (\<lambda>k. 9500::int) (reads_before (query_spans c4_store ''t1'') 1) \<and>
           \<bar>(\<lambda>k. 9000) (reads_before (query_spans c4_store ''t1'') 1) -
              start_ts (query_spans c4_store ''t1'' ! 1)\<bar> < 2 ^ 50 \<and>
           \<bar>(\<lambda>k. 9500) (reads_before (query_spans c4_store ''t1'') 1) -
              start_ts (query_spans c4_store ''t1'' ! 1)\<bar> < 2 ^ 50"
    by (simp add: q e)
  have 4: "w_duration_ms (tv_waterfall (get_trace c4_store (\<lambda>k. 9000) ''t1'') ! 1) <
     w_duration_ms (tv_waterfall (get_trace c4_store (\<lambda>k. 9500) ''t1'') ! 1)"
    by (rule B [OF l1, THEN conjunct2, THEN conjunct2, rule_format, OF g])
  have h: "end_ts (query_spans c4_store ''t1'' ! 0) \<noteq> None" by (simp add: q e)
  have 5: "w_duration_ms (tv_waterfall (get_trace c4_store (\<lambda>k. 9000) ''t1'') ! 0) =
     w_duration_ms (tv_waterfall (get_trace c4_store (\<lambda>k. 9500) ''t1'') ! 0)"
    by (rule B [OF l0, THEN conjunct1, rule_format, OF h])
  have q2: "query_spans c5_two_in_flight ''tw'' = spans c5_two_in_flight"
    by (simp add: query_spans_def c5_two_in_flight_def)
  have rb2: "reads_before (spans c5_two_in_flight) 0 = 0"
    "reads_before (spans c5_two_in_flight) 1 = 1"
    by (simp_all add: reads_before_def c5_two_in_flight_def)
  have d4: "duration_ms 100 1000 = 8106479329266893 / 9007199254740992" by (simp add: ev)
  have d5: "duration_ms 200 1500 = 5854679515581645 / 4503599627370496" by (simp add: ev)
  note A2 = get_trace_durations [where s = c5_two_in_flight and tid = "''tw''"
      and clock = "\<lambda>k. 1000 + 500 * int k", THEN conjunct2, THEN conjunct1, rule_format]
  have m0: "0 < length (query_spans c5_two_in_flight ''tw'')"
    and m1: "1 < length (query_spans c5_two_in_flight ''tw'')"
    unfolding q2 by (simp_all add: c5_two_in_flight_def)
  have 6: "w_duration_ms
     (tv_waterfall (get_trace c5_two_in_flight (\<lambda>k. 1000 + 500 * int k) ''tw'') ! 0) =
     8106479329266893 / 9007199254740992"
    using A2 [OF m0] unfolding q2 rb2 by (simp add: c5_two_in_flight_def d4)
  have 7: "w_duration_ms
     (tv_waterfall (get_trace c5_two_in_flight (\<lambda>k. 1000 + 500 * int k) ''tw'') ! 1) =
     5854679515581645 / 4503599627370496"
    using A2 [OF m1] unfolding q2 rb2 by (simp add: c5_two_in_flight_def d5)
  have 8: "start_span empty_store 10 ''tr'' ''sp'' ''gateway'' ''login'' None None =
           Inr (''sp'', c5_started)"
    by (simp add: start_span_def empty_store_def c5_started_def)
  have 9: "end_span c5_started 25 ''sp'' ''error'' None = Inr ((), c5_ended)"
    by (simp add: end_span_def update_span_def c5_started_def c5_ended_def)
  have q3: "query_spans c5_ended ''tr'' = spans c5_ended"
    by (simp add: query_spans_def c5_ended_def)
  have k: "0 < length (query_spans c5_ended ''tr'') \<and>
           span_id (query_spans c5_ended ''tr'' ! 0) = ''sp''"
    unfolding q3 by (simp add: c5_ended_def)
  have d6: "duration_ms 10 25 = 8646911284551353 / 576460752303423488" by (simp add: ev)
  have le: "(10::int) \<le> 25" by simp
  note C = get_trace_durations [where s = empty_store and ?t0.0 = 10 and ut = "''tr''"
      and us = "''sp''" and svc = "''gateway''" and op = "''login''" and tr = None
      and par = None and sid = "''sp''" and ?s1.0 = c5_started and ?t1.0 = 25
      and st = "''error''" and tg = None and ?s2.0 = c5_ended and clock = "\<lambda>k. 99",
      THEN conjunct2, THEN conjunct2, THEN conjunct2, THEN conjunct2, THEN conjunct2,
      rule_format, OF conjI [OF 8 9], THEN conjunct2, rule_format, OF k]
  have 10: "w_duration_ms (tv_waterfall (get_trace c5_ended (\<lambda>k. 99) ''tr'') ! 0) =
     8646911284551353 / 576460752303423488"
    using C [THEN conjunct2, THEN conjunct1] by (simp only: d6)
  have 11: "0 \<le> w_duration_ms (tv_waterfall (get_trace c5_ended (\<lambda>k. 99) ''tr'') ! 0)"
    using C [THEN conjunct2, THEN conjunct2] le by (simp only:)
  from 1 2 3 4 5 6 7 8 9 10 11 show ?thesis by (intro conjI)
qed

text \<open>
  Claim C5 as stated fails in three places. A span started at clock 10 and ended at
  clock 5, the wall clock having been set back in between, has the negative duration
  -0.005 ms after \<open>end_span\<close>. For a span in flight that was started at clock 10, a call
  that reads the clock at 30 gives 0.02 ms and a following call that reads it at 20 gives
  0.01 ms, which is not an increase. And for a span in flight started at clock 10, a call
  that reads the clock at 300000000000000010 and a later one that reads it one
  microsecond on give the same duration, the two differences rounding to the same
  double.
\<close>

theorem get_trace_durations_counterexample:
  "start_span empty_store 10 ''tr'' ''sp'' ''gateway'' ''login'' None None =
     Inr (''sp'', c5_started) \<and>
   end_span c5_started 5 ''sp'' ''ok'' None = Inr ((), c5_set_back) \<and>
   w_duration_ms (tv_waterfall (get_trace c5_set_back (\<lambda>k. 99) ''tr'') ! 0) =
     - (5764607523034235 / 1152921504606846976) \<and>
   w_duration_ms (tv_waterfall (get_trace c5_set_back (\<lambda>k. 99) ''tr'') ! 0) < 0 \<and>
   w_duration_ms (tv_waterfall (get_trace c5_started (\<lambda>k. 30) ''tr'') ! 0) =
     5764607523034235 / 288230376151711744 \<and>
   w_duration_ms (tv_waterfall (get_trace c5_started (\<lambda>k. 20) ''tr'') ! 0) =
     5764607523034235 / 576460752303423488 \<and>
   w_duration_ms (tv_waterfall (get_trace c5_started (\<lambda>k. 300000000000000010) ''tr'') ! 0) =
     300000000000000 \<and>
   w_duration_ms (tv_waterfall (get_trace c5_started (\<lambda>k. 300000000000000011) ''tr'') ! 0) =
     300000000000000"
proof -
  note ev = duration_ms_def Let_def to_double_def binade_def rne_def pow2_def compute_bitlen
  have 1: "start_span empty_store 10 ''tr'' ''sp'' ''gateway'' ''login'' None None =
           Inr (''sp'', c5_started)"
    by (simp add: start_span_def empty_store_def c5_started_def)
  have 2: "end_span c5_started 5 ''sp'' ''ok'' None = Inr ((), c5_set_back)"
    by (simp add: end_span_def update_span_def c5_started_def c5_set_back_def)
  have qa: "query_spans c5_set_back ''tr'' = spans c5_set_back"
    by (simp add: query_spans_def c5_set_back_def)
  have qb: "query_spans c5_started ''tr'' = spans c5_started"
    by (simp add: query_spans_def c5_started_def)
  have wa: "tv_waterfall (get_trace c5_set_back clock ''tr'') =
            [\<lparr>w_service = ''gateway'', w_operation = ''login'',
              w_duration_ms = duration_ms 10 5, w_status = ''ok''\<rparr>]" for clock
    unfolding tv_waterfall_get_trace qa by (simp add: c5_set_back_def)
  have wb: "tv_waterfall (get_trace c5_started clock ''tr'') =
            [\<lparr>w_service = ''gateway'', w_operation = ''login'',
              w_duration_ms = duration_ms 10 (clock 0), w_status = ''ok''\<rparr>]" for clock
    unfolding tv_waterfall_get_trace qb by (simp add: c5_started_def)
  have d1: "duration_ms 10 5 = - (5764607523034235 / 1152921504606846976)" by (simp add: ev)
  have d2: "duration_ms 10 30 = 5764607523034235 / 288230376151711744" by (simp add: ev)
  have d3: "duration_ms 10 20 = 5764607523034235 / 576460752303423488" by (simp add: ev)
  have d4: "duration_ms 10 300000000000000010 = 300000000000000" by (simp add: ev)
  have d5: "duration_ms 10 300000000000000011 = 300000000000000" by (simp add: ev)
  have 3: "w_duration_ms (tv_waterfall (get_trace c5_set_back (\<lambda>k. 99) ''tr'') ! 0) =
     - (5764607523034235 / 1152921504606846976)"
    by (simp add: wa d1)
  have 4: "w_duration_ms (tv_waterfall (get_trace c5_set_back (\<lambda>k. 99) ''tr'') ! 0) < 0"
    unfolding 3 by simp
  have 5: "w_duration_ms (tv_waterfall (get_trace c5_started (\<lambda>k. 30) ''tr'') ! 0) =
     5764607523034235 / 288230376151711744"
    by (simp add: wb d2)
  have 6: "w_duration_ms (tv_waterfall (get_trace c5_started (\<lambda>k. 20) ''tr'') ! 0) =
     5764607523034235 / 576460752303423488"
    by (simp add: wb d3)
  have 7: "w_duration_ms
             (tv_waterfall (get_trace c5_started (\<lambda>k. 300000000000000010) ''tr'') ! 0) =
     300000000000000"
    by (simp add: wb d4)
  have 8: "w_duration_ms
             (tv_waterfall (get_trace c5_started (\<lambda>k. 300000000000000011) ''tr'') ! 0) =
     300000000000000"
    by (simp add: wb d5)
  from 1 2 3 4 5 6 7 8 show ?thesis by (intro conjI)
qed

section \<open>Ingestion\<close>

subsection \<open>Recording metrics\<close>

text \<open>
  Claim C7, as the code has it. \<open>record_metric\<close> does not look at the value: it never
  fails with InvalidValue, and for every value, finite or not, it succeeds whenever the
  generated id is not yet a key of the metrics table, appends one row (with NULL as the
  value for NaN) and returns the generated id.
\<close>

theorem record_metric_accepts_every_value:
  "record_metric s now uid name v labels type \<noteq> Inl InvalidValue \<and>
   (uid \<notin> set (map m_id (metrics s)) \<longrightarrow>
      record_metric s now uid name v labels type =
        Inr (uid, s\<lparr>metrics := metrics s @
               [\<lparr>m_id = uid, m_name = name, m_value = sql_real v, m_labels = or_empty labels,
                 m_timestamp = now, m_type = type\<rparr>]\<rparr>))"
  by (simp add: record_metric_def Let_def)


text \<open>The same on the empty store, for a finite value and for minus infinity.\<close>

theorem record_metric_accepts_every_value_witness:
  "''m1'' \<notin> set (map m_id (metrics empty_store)) \<and>
   record_metric empty_store 0 ''m1'' ''cpu'' (Finite 0.5) None ''gauge'' =
     Inr (''m1'', \<lparr>metrics = [c7_row (Some (Finite 0.5))], spans = [], logs = []\<rparr>) \<and>
   record_metric empty_store 0 ''m1'' ''cpu'' NegInf None ''gauge'' =
     Inr (''m1'', \<lparr>metrics = [c7_row (Some NegInf)], spans = [], logs = []\<rparr>)"
proof -
  have f: "''m1'' \<notin> set (map m_id (metrics empty_store))"
    by (simp add: empty_store_def)
  note t = record_metric_accepts_every_value [THEN conjunct2, rule_format, OF f]
  have 1: "record_metric empty_store 0 ''m1'' ''cpu'' (Finite 0.5) None ''gauge'' =
     Inr (''m1'', \<lparr>metrics = [c7_row (Some (Finite 0.5))], spans = [], logs = []\<rparr>)"
    using t [of 0 "''cpu''" "Finite 0.5" None "''gauge''"]
    by (simp add: empty_store_def c7_row_def)
  have 2: "record_metric empty_store 0 ''m1'' ''cpu'' NegInf None ''gauge'' =
     Inr (''m1'', \<lparr>metrics = [c7_row (Some NegInf)], spans = [], logs = []\<rparr>)"
    using t [of 0 "''cpu''" NegInf None "''gauge''"]
    by (simp add: empty_store_def c7_row_def)
  from f 1 2 show ?thesis by (intro conjI)
qed


text \<open>
  Claim C7 as stated (InvalidValue for NaN and for the infinities, nothing written)
  fails: on the empty store the call with NaN and the call with plus infinity both
  return the id and write a row.
\<close>

theorem record_metric_invalid_value_counterexample:
  "record_metric empty_store 0 ''m1'' ''cpu'' NaN None ''gauge'' =
     Inr (''m1'', \<lparr>metrics = [c7_row None], spans = [], logs = []\<rparr>) \<and>
   record_metric empty_store 0 ''m1'' ''cpu'' PosInf None ''gauge'' =
     Inr (''m1'', \<lparr>metrics = [c7_row (Some PosInf)], spans = [], logs = []\<rparr>) \<and>
   record_metric empty_store 0 ''m1'' ''cpu'' NaN None ''gauge'' \<noteq> Inl InvalidValue"
  by (simp add: record_metric_def empty_store_def c7_row_def Let_def)


lemma record_metric_Inr:
  assumes "record_metric s now uid name v labels type = Inr (i, s')"
  shows "i = uid" and "uid \<notin> set (map m_id (metrics s))"
    and "metrics s' = metrics s @
           [\<lparr>m_id = uid, m_name = name, m_value = sql_real v, m_labels = or_empty labels,
             m_timestamp = now, m_type = type\<rparr>]"
  using assms by (auto simp: record_metric_def Let_def split: if_splits)

lemma increment_eq:
  "increment s now uid name labels = record_metric s now uid name (Finite 1) labels ''counter''"
  by (simp add: increment_def record_metric_def Let_def)

lemma get_metrics_append:
  assumes "metrics s' = metrics s @ rs"
  shows "get_metrics s' now name labels w =
           get_metrics s now name labels w @
           filter (\<lambda>m. now - minutes w < m_timestamp m \<and> name_filter name (m_name m)) rs"
  by (simp add: get_metrics_def assms Let_def)


text \<open>
  Claim C8. \<open>increment\<close> is \<open>record_metric\<close> with value 1.0 and kind \<^verbatim>\<open>counter\<close>, for every
  name and labels. Two increments of a name that both succeed have different ids, and a
  query for that name within 60 minutes of both returns what it returned before them
  followed by two rows, one per increment, each with value 1.0 and kind \<^verbatim>\<open>counter\<close>.
\<close>

theorem increment_is_record_metric:
  "increment s t uid name labels =
     record_metric s t uid name (Finite 1) labels ''counter'' \<and>
   (increment s t1 u1 name None = Inr (i1, s1) \<and>
    increment s1 t2 u2 name None = Inr (i2, s2) \<and>
    now - t1 < minutes 60 \<and> now - t2 < minutes 60 \<longrightarrow>
      i1 \<noteq> i2 \<and>
      get_metrics s2 now (Some name) None 60 =
        get_metrics s now (Some name) None 60 @
          [\<lparr>m_id = i1, m_name = name, m_value = Some (Finite 1), m_labels = [],
            m_timestamp = t1, m_type = ''counter''\<rparr>,
           \<lparr>m_id = i2, m_name = name, m_value = Some (Finite 1), m_labels = [],
            m_timestamp = t2, m_type = ''counter''\<rparr>])"
proof (intro conjI impI)
  show "increment s t uid name labels =
     record_metric s t uid name (Finite 1) labels ''counter''"
    by (rule increment_eq)
next
  assume h: "increment s t1 u1 name None = Inr (i1, s1) \<and>
    increment s1 t2 u2 name None = Inr (i2, s2) \<and>
    now - t1 < minutes 60 \<and> now - t2 < minutes 60"
  then have a: "record_metric s t1 u1 name (Finite 1) None ''counter'' = Inr (i1, s1)"
    and b: "record_metric s1 t2 u2 name (Finite 1) None ''counter'' = Inr (i2, s2)"
    and w: "now - t1 < minutes 60" "now - t2 < minutes 60"
    by (simp_all add: increment_eq)
  note A = record_metric_Inr [OF a]
  note B = record_metric_Inr [OF b]
  have "u2 \<noteq> u1" using B(2) unfolding A(3) by auto
  then show "i1 \<noteq> i2" using A(1) B(1) by simp
  have m: "metrics s2 = metrics s @
          [\<lparr>m_id = i1, m_name = name, m_value = Some (Finite 1), m_labels = [],
            m_timestamp = t1, m_type = ''counter''\<rparr>,
           \<lparr>m_id = i2, m_name = name, m_value = Some (Finite 1), m_labels = [],
            m_timestamp = t2, m_type = ''counter''\<rparr>]"
    unfolding B(3) A(3) using A(1) B(1) by simp
  have n: "name_filter (Some name) name"
    using name_filter_own_name [of name "[]"] by simp
  show "get_metrics s2 now (Some name) None 60 =
        get_metrics s now (Some name) None 60 @
          [\<lparr>m_id = i1, m_name = name, m_value = Some (Finite 1), m_labels = [],
            m_timestamp = t1, m_type = ''counter''\<rparr>,
           \<lparr>m_id = i2, m_name = name, m_value = Some (Finite 1), m_labels = [],
            m_timestamp = t2, m_type = ''counter''\<rparr>]"
    unfolding get_metrics_append [OF m]
    using w n by (simp del: name_filter.simps)
qed


text \<open>The same for two increments of \<^verbatim>\<open>x.hits\<close> on the empty store.\<close>

theorem increment_is_record_metric_witness:
  "increment empty_store 100 ''a'' ''x.hits'' None =
     Inr (''a'', \<lparr>metrics = [c8_row ''a'' 100], spans = [], logs = []\<rparr>) \<and>
   increment \<lparr>metrics = [c8_row ''a'' 100], spans = [], logs = []\<rparr> 200 ''b'' ''x.hits'' None =
     Inr (''b'', \<lparr>metrics = [c8_row ''a'' 100, c8_row ''b'' 200], spans = [], logs = []\<rparr>) \<and>
   get_metrics \<lparr>metrics = [c8_row ''a'' 100, c8_row ''b'' 200], spans = [], logs = []\<rparr>
       300 (Some ''x.hits'') None 60 =
     [c8_row ''a'' 100, c8_row ''b'' 200] \<and>
   c8_row ''a'' 100 \<noteq> c8_row ''b'' 200"
proof -
  have 1: "increment empty_store 100 ''a'' ''x.hits'' None =
     Inr (''a'', \<lparr>metrics = [c8_row ''a'' 100], spans = [], logs = []\<rparr>)"
    by (simp add: increment_def record_metric_def empty_store_def c8_row_def Let_def)
  have 2: "increment \<lparr>metrics = [c8_row ''a'' 100], spans = [], logs = []\<rparr> 200 ''b''
             ''x.hits'' None =
     Inr (''b'', \<lparr>metrics = [c8_row ''a'' 100, c8_row ''b'' 200], spans = [], logs = []\<rparr>)"
    by (simp add: increment_def record_metric_def c8_row_def Let_def)
  have w: "(300::int) - 100 < minutes 60" "(300::int) - 200 < minutes 60"
    by (simp_all add: minutes_def)
  have e: "get_metrics empty_store 300 (Some ''x.hits'') None 60 = []"
    by (simp add: get_metrics_def empty_store_def)
  note t = increment_is_record_metric [THEN conjunct2, rule_format,
      OF conjI [OF 1 conjI [OF 2 conjI [OF w]]]]
  have 3: "get_metrics \<lparr>metrics = [c8_row ''a'' 100, c8_row ''b'' 200], spans = [], logs = []\<rparr>
       300 (Some ''x.hits'') None 60 =
     [c8_row ''a'' 100, c8_row ''b'' 200]"
    using t by (simp add: e c8_row_def)
  have 4: "c8_row ''a'' 100 \<noteq> c8_row ''b'' 200"
    using t by (simp add: c8_row_def)
  from 1 2 3 4 show ?thesis by (intro conjI)
qed


subsection \<open>Ending spans\<close>

lemma end_span_eq:
  "end_span s now sid st tg =
     Inr ((), s\<lparr>spans := map (update_span now st (or_empty tg) sid) (spans s)\<rparr>)"
  by (simp add: end_span_def)


text \<open>
  Claim C6, as the code has it. \<open>end_span\<close> returns normally on every input, and for a
  span id that no stored span has it leaves the store as it is.
\<close>

theorem end_span_unknown_is_noop:
  "(\<exists>s'. end_span s now sid st tg = Inr ((), s')) \<and>
   (sid \<notin> set (map span_id (spans s)) \<longrightarrow> end_span s now sid st tg = Inr ((), s))"
proof (intro conjI impI)
  show "\<exists>s'. end_span s now sid st tg = Inr ((), s')"
    by (simp add: end_span_eq)
  assume "sid \<notin> set (map span_id (spans s))"
  then have "map (update_span now st (or_empty tg) sid) (spans s) = spans s"
    by (rule update_span_other)
  then show "end_span s now sid st tg = Inr ((), s)"
    by (simp add: end_span_eq)
qed


text \<open>The same for an unknown id on a store that holds one span.\<close>

theorem end_span_unknown_is_noop_witness:
  "''ghost'' \<notin> set (map span_id (spans c5_started)) \<and>
   end_span c5_started 30 ''ghost'' ''error'' None = Inr ((), c5_started)"
proof -
  have f: "''ghost'' \<notin> set (map span_id (spans c5_started))"
    by (simp add: c5_started_def)
  from end_span_unknown_is_noop [of c5_started 30 "''ghost''" "''error''" None] f
  have "end_span c5_started 30 ''ghost'' ''error'' None = Inr ((), c5_started)"
    by (elim conjE) (erule mp)
  with f show ?thesis by (intro conjI)
qed


text \<open>
  Claim C6 as stated (NotFound for a span id that was never started) fails: on the
  empty store the call returns normally.
\<close>

theorem end_span_not_found_counterexample:
  "''ghost'' \<notin> set (map span_id (spans empty_store)) \<and>
   end_span empty_store 5 ''ghost'' ''ok'' None = Inr ((), empty_store) \<and>
   end_span empty_store 5 ''ghost'' ''ok'' None \<noteq> Inl NotFound"
  by (simp add: end_span_def empty_store_def)


lemma update_span_twice:
  "update_span t2 st2 tg2 sid (update_span t1 st1 tg1 sid r) = update_span t2 st2 tg2 sid r"
  by (simp add: update_span_def)

lemma update_span_hit:
  "span_id r = sid \<Longrightarrow>
   span_id (update_span now st tg sid r) = sid \<and>
   end_ts (update_span now st tg sid r) = Some now \<and>
   status (update_span now st tg sid r) = st \<and>
   tags (update_span now st tg sid r) = tg"
  by (simp add: update_span_def)

lemma update_span_id: "span_id (update_span now st tg sid r) = span_id r"
  by (simp add: update_span_def)


text \<open>
  Claim C9. For a span that exists, \<open>end_span\<close> followed by a second \<open>end_span\<close> of the
  same span both return normally, and the store after the second call is the store a
  single call with the second call's clock, status and tags would have produced: the
  span is still there, and every row with that span id carries the second end
  timestamp, status and tags.
\<close>

theorem end_span_twice_last_wins:
  "(\<exists>r \<in> set (spans s). span_id r = sid) \<longrightarrow>
   (\<exists>s1 s2. end_span s t1 sid st1 tg1 = Inr ((), s1) \<and>
            end_span s1 t2 sid st2 tg2 = Inr ((), s2) \<and>
            end_span s t2 sid st2 tg2 = Inr ((), s2) \<and>
            (\<exists>r \<in> set (spans s2). span_id r = sid) \<and>
            (\<forall>r \<in> set (spans s2). span_id r = sid \<longrightarrow>
               end_ts r = Some t2 \<and> status r = st2 \<and> tags r = or_empty tg2))"
proof
  assume ex: "\<exists>r \<in> set (spans s). span_id r = sid"
  let ?s1 = "s\<lparr>spans := map (update_span t1 st1 (or_empty tg1) sid) (spans s)\<rparr>"
  let ?s2 = "s\<lparr>spans := map (update_span t2 st2 (or_empty tg2) sid) (spans s)\<rparr>"
  have 1: "end_span s t1 sid st1 tg1 = Inr ((), ?s1)" by (rule end_span_eq)
  have 2: "end_span ?s1 t2 sid st2 tg2 = Inr ((), ?s2)"
    by (simp add: end_span_eq update_span_twice comp_def)
  have 3: "end_span s t2 sid st2 tg2 = Inr ((), ?s2)" by (rule end_span_eq)
  from ex obtain r where r: "r \<in> set (spans s)" "span_id r = sid" by blast
  then have "update_span t2 st2 (or_empty tg2) sid r \<in> set (spans ?s2)" by simp
  moreover have "span_id (update_span t2 st2 (or_empty tg2) sid r) = sid"
    using r(2) by (simp add: update_span_id)
  ultimately have 4: "\<exists>r \<in> set (spans ?s2). span_id r = sid" by blast
  have 5: "\<forall>r \<in> set (spans ?s2). span_id r = sid \<longrightarrow>
               end_ts r = Some t2 \<and> status r = st2 \<and> tags r = or_empty tg2"
  proof (intro ballI impI)
    fix r' assume "r' \<in> set (spans ?s2)" and i: "span_id r' = sid"
    then obtain r0 where r0: "r' = update_span t2 st2 (or_empty tg2) sid r0" by auto
    with i have "span_id r0 = sid" by (simp add: update_span_id)
    from update_span_hit [OF this, of t2 st2 "or_empty tg2"] r0
    show "end_ts r' = Some t2 \<and> status r' = st2 \<and> tags r' = or_empty tg2" by simp
  qed
  from 1 2 3 4 5 show "\<exists>s1 s2. end_span s t1 sid st1 tg1 = Inr ((), s1) \<and>
            end_span s1 t2 sid st2 tg2 = Inr ((), s2) \<and>
            end_span s t2 sid st2 tg2 = Inr ((), s2) \<and>
            (\<exists>r \<in> set (spans s2). span_id r = sid) \<and>
            (\<forall>r \<in> set (spans s2). span_id r = sid \<longrightarrow>
               end_ts r = Some t2 \<and> status r = st2 \<and> tags r = or_empty tg2)"
    by (intro exI [of _ ?s1] exI [of _ ?s2] conjI)
qed


text \<open>The same for a span ended at clock 25 with status error, then at 40 with status ok.\<close>

theorem end_span_twice_last_wins_witness:
  "(\<exists>r \<in> set (spans c5_started). span_id r = ''sp'') \<and>
   end_span c5_started 25 ''sp'' ''error'' None = Inr ((), c5_ended) \<and>
   end_span c5_ended 40 ''sp'' ''ok'' (Some [(''retry'', ''1'')]) = Inr ((), c9_ended_twice) \<and>
   spans c9_ended_twice = [c9_row] \<and>
   end_ts c9_row = Some 40 \<and> status c9_row = ''ok'' \<and> tags c9_row = [(''retry'', ''1'')]"
proof -
  have f: "\<exists>r \<in> set (spans c5_started). span_id r = ''sp''"
    by (simp add: c5_started_def)
  have 1: "end_span c5_started 25 ''sp'' ''error'' None = Inr ((), c5_ended)"
    by (simp add: end_span_def update_span_def c5_started_def c5_ended_def)
  have 2: "end_span c5_ended 40 ''sp'' ''ok'' (Some [(''retry'', ''1'')]) =
           Inr ((), c9_ended_twice)"
    by (simp add: end_span_def update_span_def c5_ended_def c9_ended_twice_def c9_row_def)
  from end_span_twice_last_wins [of c5_started "''sp''" 25 "''error''" None 40 "''ok''"
      "Some [(''retry'', ''1'')]", THEN mp, OF f]
  have 3: "\<forall>r \<in> set (spans c9_ended_twice). span_id r = ''sp'' \<longrightarrow>
      end_ts r = Some 40 \<and> status r = ''ok'' \<and> tags r = [(''retry'', ''1'')]"
    unfolding 1 by (auto simp: 2)
  have 4: "spans c9_ended_twice = [c9_row]" by (simp add: c9_ended_twice_def)
  have 5: "c9_row \<in> set (spans c9_ended_twice)" "span_id c9_row = ''sp''"
    by (simp_all add: c9_ended_twice_def c9_row_def)
  from 3 [rule_format, OF 5]
  have 6: "end_ts c9_row = Some 40 \<and> status c9_row = ''ok'' \<and> tags c9_row = [(''retry'', ''1'')]" .
  from f 1 2 4 6 show ?thesis by (intro conjI) (elim conjE, assumption)+
qed

end
